theory Spec2Isabelle
  imports Complex_Main "HOL-Library.Word"
begin

section \<open>goKeyValueStore: a key-value store with TTL and an optional file mirror\<close>

text \<open>
  The repository holds two revisions of the package: the in-memory store
  (\<^verbatim>\<open>keyValueStore.go\<close>) and the store with a cache folder (the revision with
  \<^verbatim>\<open>saveInCache\<close>, \<^verbatim>\<open>deleteInCache\<close> and \<^verbatim>\<open>init\<close>). Both are embedded; the
  constants of the in-memory revision carry the suffix \<open>_mem\<close>.

  Conventions of the embedding.
  \<^item> Go's \<^verbatim>\<open>int\<close> and \<^verbatim>\<open>int64\<close> are \<open>64 word\<close> (a 64-bit platform); \<open>+\<close>, \<open>-\<close>
    and \<open>*\<close> wrap, comparisons are signed (\<open><s\<close>).
  \<^item> A \<^verbatim>\<open>time.Time\<close> is its wall-clock reading in nanoseconds since the Unix epoch,
    an unbounded \<open>int\<close>. Every \<^verbatim>\<open>time.Now()\<close> of the source is a reading that the
    caller of the model supplies.
  \<^item> \<^verbatim>\<open>map[string]node\<close> is a map \<open>string \<rightharpoonup> node\<close>; a \<^verbatim>\<open>range\<close> over it visits
    the keys in an order that the caller of the model supplies.
  \<^item> The value type \<^verbatim>\<open>any\<close> is a type variable \<open>'v\<close>; Go's \<^verbatim>\<open>nil\<close> interface is
    \<open>None\<close> where a function returns \<^verbatim>\<open>nil\<close> for it.
  \<^item> A Go \<^verbatim>\<open>error\<close> result is \<open>error option\<close> (\<open>None\<close> is \<^verbatim>\<open>nil\<close>); a panic is
    the constructor \<open>Panicked\<close> of \<open>outcome\<close>.
  \<^item> Methods with a pointer receiver take the store and the file system and return
    both after the call. The mutex is not modelled: every call runs alone.
  \<^item> \<^verbatim>\<open>cleanTimeout\<close> (a \<^verbatim>\<open>float32\<close> used only by \<^verbatim>\<open>time.Sleep\<close>) is left out.
\<close>

subsection \<open>Time and machine integers\<close>

type_synonym int64 = "64 word"
type_synonym time = int

definition Millisecond :: int64 where
  "Millisecond = 1000000"

definition MaxInt :: int64 where
  "MaxInt = 9223372036854775807"

text \<open>\<^verbatim>\<open>t.Add(d)\<close>: the wall clock moves by the signed duration \<open>d\<close> (nanoseconds).\<close>

definition Add :: "time \<Rightarrow> int64 \<Rightarrow> time" where
  "Add t d = t + sint d"

text \<open>\<^verbatim>\<open>t.UnixMilli()\<close>: milliseconds since the epoch, rounded down, as an \<^verbatim>\<open>int64\<close>.\<close>

definition UnixMilli :: "time \<Rightarrow> int64" where
  "UnixMilli t = word_of_int (t div 1000000)"

subsection \<open>Errors, the file system and the library functions\<close>

datatype error = ErrNotExist | ErrPermission | ErrJSON

datatype 'a outcome = Completed 'a | Panicked error 'a

text \<open>
  The file system: the contents of the files by path, the paths on which the operating
  system refuses every operation (a folder that cannot be searched or written: the
  refusal comes before the file is looked up, so it is the answer for a path without a
  file too), and the listing that \<^verbatim>\<open>os.ReadDir\<close> gives for a directory (it is read
  once, at startup, before the store writes anything).
\<close>

record fsys =
  files :: "string \<rightharpoonup> string"
  denied :: "string \<Rightarrow> bool"
  listing :: "string \<Rightarrow> error + string list"

definition WriteFile :: "fsys \<Rightarrow> string \<Rightarrow> string \<Rightarrow> fsys \<times> error option" where
  "WriteFile fs name bytes =
     (if denied fs name then (fs, Some ErrPermission)
      else (fs\<lparr>files := (files fs)(name \<mapsto> bytes)\<rparr>, None))"

definition Remove :: "fsys \<Rightarrow> string \<Rightarrow> fsys \<times> error option" where
  "Remove fs name =
     (if denied fs name then (fs, Some ErrPermission)
      else (case files fs name of
              None \<Rightarrow> (fs, Some ErrNotExist)
            | Some _ \<Rightarrow> (fs\<lparr>files := (files fs)(name := None)\<rparr>, None)))"

definition ReadFile :: "fsys \<Rightarrow> string \<Rightarrow> error + string" where
  "ReadFile fs name =
     (if denied fs name then Inl ErrPermission
      else (case files fs name of
              None \<Rightarrow> Inl ErrNotExist
            | Some bytes \<Rightarrow> Inr bytes))"

definition MkdirAll :: "fsys \<Rightarrow> string \<Rightarrow> error option" where
  "MkdirAll fs name = (if denied fs name then Some ErrPermission else None)"

definition ReadDir :: "fsys \<Rightarrow> string \<Rightarrow> error + string list" where
  "ReadDir fs name = listing fs name"

definition IsNotExist :: "error \<Rightarrow> bool" where
  "IsNotExist err = (err = ErrNotExist)"

definition HasSuffix :: "string \<Rightarrow> string \<Rightarrow> bool" where
  "HasSuffix s suffix =
     (length suffix \<le> length s \<and> drop (length s - length suffix) s = suffix)"

subsection \<open>The entry\<close>

record 'v node =
  Key :: string
  Value :: 'v
  DeleteTimestamp :: int64

text \<open>
  The functions of the standard library that the store calls and the repository does
  not contain are parameters: \<open>Sum256Hex key\<close> is
  \<^verbatim>\<open>hex.EncodeToString(sha256.Sum256([]byte(key)))\<close>, \<open>Join\<close> is \<^verbatim>\<open>filepath.Join\<close>,
  \<open>Marshal\<close> and \<open>Unmarshal\<close> are \<^verbatim>\<open>json.Marshal\<close> and \<^verbatim>\<open>json.Unmarshal\<close> at the
  type \<^verbatim>\<open>node\<close>.
\<close>

record 'v lib =
  Sum256Hex :: "string \<Rightarrow> string"
  Join :: "string \<Rightarrow> string \<Rightarrow> string"
  Marshal :: "'v node \<Rightarrow> error + string"
  Unmarshal :: "string \<Rightarrow> error + 'v node"

record 'v KeyValueStore =
  data :: "string \<rightharpoonup> 'v node"
  cacheFolder :: string

type_synonym 'v world = "'v KeyValueStore \<times> fsys"

subsection \<open>The store with a cache folder\<close>

definition newNode :: "time \<Rightarrow> string \<Rightarrow> 'v \<Rightarrow> int64 \<Rightarrow> 'v node" where
  "newNode now key val ttl =
     (let ttl = (if ttl = 0 then MaxInt else ttl);
          timestamp = UnixMilli (Add now (ttl * Millisecond))
      in \<lparr>Key = key, Value = val, DeleteTimestamp = timestamp\<rparr>)"

definition nodeIsExpired :: "time \<Rightarrow> 'v node \<Rightarrow> bool" where
  "nodeIsExpired now node = (DeleteTimestamp node <s UnixMilli now)"

definition getFileName :: "'v lib \<Rightarrow> 'v KeyValueStore \<Rightarrow> string \<Rightarrow> error + string" where
  "getFileName L d key = Inr (Join L (cacheFolder d) (Sum256Hex L key @ ''.store.json''))"

definition saveInCache :: "'v lib \<Rightarrow> 'v node \<Rightarrow> 'v world \<Rightarrow> fsys \<times> error option" where
  "saveInCache L node w =
     (case w of (d, fs) \<Rightarrow>
        if cacheFolder d = [] then (fs, None)
        else (case Marshal L node of
                Inl err \<Rightarrow> (fs, Some err)
              | Inr bytes \<Rightarrow>
                  (case getFileName L d (Key node) of
                     Inl err \<Rightarrow> (fs, Some err)
                   | Inr fileName \<Rightarrow> WriteFile fs fileName bytes)))"

definition Set :: "'v lib \<Rightarrow> time \<Rightarrow> string \<Rightarrow> 'v \<Rightarrow> int64 \<Rightarrow> 'v world \<Rightarrow> 'v world \<times> error option" where
  "Set L now key val ttl w =
     (case w of (d, fs) \<Rightarrow>
        let node = newNode now key val ttl;
            d' = d\<lparr>data := (data d)(key \<mapsto> node)\<rparr>
        in (case saveInCache L node (d', fs) of
              (fs', err) \<Rightarrow> ((d', fs'), err)))"

definition Get :: "time \<Rightarrow> string \<Rightarrow> 'v world \<Rightarrow> 'v world \<times> ('v option \<times> bool)" where
  "Get now key w =
     (case w of (d, fs) \<Rightarrow>
        (case data d key of
           None \<Rightarrow> (w, (None, False))
         | Some val \<Rightarrow>
             if nodeIsExpired now val then (w, (None, False))
             else (w, (Some (Value val), True))))"

definition deleteInCache :: "'v lib \<Rightarrow> string \<Rightarrow> 'v world \<Rightarrow> fsys \<times> error option" where
  "deleteInCache L key w =
     (case w of (d, fs) \<Rightarrow>
        if cacheFolder d = [] then (fs, None)
        else (case getFileName L d key of
                Inl err \<Rightarrow> (fs, Some err)
              | Inr fileName \<Rightarrow>
                  (case Remove fs fileName of
                     (fs', Some err) \<Rightarrow>
                       if IsNotExist err then (fs', None) else (fs', Some err)
                   | (fs', None) \<Rightarrow> (fs', None))))"

definition Delete :: "'v lib \<Rightarrow> string \<Rightarrow> 'v world \<Rightarrow> 'v world \<times> error option" where
  "Delete L key w =
     (case w of (d, fs) \<Rightarrow>
        let d' = d\<lparr>data := (data d)(key := None)\<rparr>
        in (case deleteInCache L key (d', fs) of
              (fs', err) \<Rightarrow> ((d', fs'), err)))"

text \<open>
  \<^verbatim>\<open>Length\<close>: the loop visits the keys of the map in the order \<open>keys\<close>; \<open>clk key\<close> is the
  reading of the clock when \<^verbatim>\<open>nodeIsExpired\<close> is called for that key. The counter is a
  \<open>nat\<close>: a map cannot hold \<open>2 ^ 63\<close> entries.
\<close>

fun LengthLoop :: "'v KeyValueStore \<Rightarrow> (string \<Rightarrow> time) \<Rightarrow> string list \<Rightarrow> nat \<Rightarrow> nat" where
  "LengthLoop d clk [] counter = counter"
| "LengthLoop d clk (key # keys) counter =
     (case data d key of
        None \<Rightarrow> LengthLoop d clk keys counter
      | Some node \<Rightarrow>
          if \<not> nodeIsExpired (clk key) node then LengthLoop d clk keys (counter + 1)
          else LengthLoop d clk keys counter)"

definition Length :: "(string \<Rightarrow> time) \<Rightarrow> string list \<Rightarrow> 'v world \<Rightarrow> 'v world \<times> nat" where
  "Length clk keys w = (case w of (d, fs) \<Rightarrow> (w, LengthLoop d clk keys 0))"

text \<open>
  \<^verbatim>\<open>init\<close>: \<open>clk file\<close> gives the two readings of the clock taken for the directory entry
  \<open>file\<close>: the one of \<^verbatim>\<open>init\<close> itself and the one of \<^verbatim>\<open>newNode\<close> inside \<^verbatim>\<open>Set\<close>. The
  error that \<^verbatim>\<open>Set\<close> returns is dropped, as in the source.
\<close>

fun initLoop :: "'v lib \<Rightarrow> (string \<Rightarrow> time \<times> time) \<Rightarrow> string list \<Rightarrow> 'v world \<Rightarrow> 'v world \<times> error option" where
  "initLoop L clk [] w = (w, None)"
| "initLoop L clk (file # entries) w =
     (case w of (d, fs) \<Rightarrow>
        if \<not> HasSuffix file ''.store.json'' then initLoop L clk entries w
        else (case ReadFile fs (Join L (cacheFolder d) file) of
                Inl err \<Rightarrow> (w, Some err)
              | Inr fileData \<Rightarrow>
                  (case Unmarshal L fileData of
                     Inl err \<Rightarrow> (w, Some err)
                   | Inr node \<Rightarrow>
                       let now = UnixMilli (fst (clk file));
                           timeLeft = DeleteTimestamp node - now;
                           timeLeft = (if timeLeft <s 0 then 1 else timeLeft)
                       in initLoop L clk entries
                            (fst (Set L (snd (clk file)) (Key node) (Value node) timeLeft w)))))"

definition init :: "'v lib \<Rightarrow> (string \<Rightarrow> time \<times> time) \<Rightarrow> 'v world \<Rightarrow> 'v world \<times> error option" where
  "init L clk w =
     (case w of (d, fs) \<Rightarrow>
        if cacheFolder d = [] then (w, None)
        else (case MkdirAll fs (cacheFolder d) of
                Some err \<Rightarrow> (w, Some err)
              | None \<Rightarrow>
                  (case ReadDir fs (cacheFolder d) of
                     Inl err \<Rightarrow> (w, Some err)
                   | Inr entries \<Rightarrow> initLoop L clk entries w)))"

text \<open>
  \<^verbatim>\<open>clean\<close>: one pass of the sweeper over the keys in the order \<open>keys\<close>, then the endless
  loop unrolled over the passes it is given. A pass that panics ends the loop, and the
  world it leaves is the one at the panic.
\<close>

fun cleanPass :: "'v lib \<Rightarrow> (string \<Rightarrow> time) \<Rightarrow> string list \<Rightarrow> 'v world \<Rightarrow> 'v world outcome" where
  "cleanPass L clk [] w = Completed w"
| "cleanPass L clk (key # keys) w =
     (case w of (d, fs) \<Rightarrow>
        (case data d key of
           None \<Rightarrow> cleanPass L clk keys w
         | Some node \<Rightarrow>
             if nodeIsExpired (clk key) node then
               let d' = d\<lparr>data := (data d)(key := None)\<rparr>
               in (case deleteInCache L key (d', fs) of
                     (fs', Some err) \<Rightarrow> Panicked err (d', fs')
                   | (fs', None) \<Rightarrow> cleanPass L clk keys (d', fs'))
             else cleanPass L clk keys w))"

fun clean :: "'v lib \<Rightarrow> ((string \<Rightarrow> time) \<times> string list) list \<Rightarrow> 'v world \<Rightarrow> 'v world outcome" where
  "clean L [] w = Completed w"
| "clean L (pass # passes) w =
     (case cleanPass L (fst pass) (snd pass) w of
        Panicked err w' \<Rightarrow> Panicked err w'
      | Completed w' \<Rightarrow> clean L passes w')"

definition NewKeyValueStore :: "'v lib \<Rightarrow> string \<Rightarrow> (string \<Rightarrow> time \<times> time) \<Rightarrow> fsys \<Rightarrow> 'v world outcome" where
  "NewKeyValueStore L folder clk fs =
     (let store = \<lparr>data = Map.empty, cacheFolder = folder\<rparr>
      in (case init L clk (store, fs) of
            (w, Some err) \<Rightarrow> Panicked err w
          | (w, None) \<Rightarrow> Completed w))"

subsection \<open>The in-memory store\<close>

record 'v node_mem =
  key_mem :: string
  value_mem :: 'v
  deleteTimestamp :: int64

record 'v KeyValueStore_mem =
  data_mem :: "string \<rightharpoonup> 'v node_mem"

definition newNode_mem :: "time \<Rightarrow> string \<Rightarrow> 'v \<Rightarrow> int64 \<Rightarrow> 'v node_mem" where
  "newNode_mem now key val ttl =
     (let timestamp = UnixMilli (Add now (ttl * Millisecond))
      in \<lparr>key_mem = key, value_mem = val, deleteTimestamp = timestamp\<rparr>)"

definition nodeIsExpired_mem :: "time \<Rightarrow> 'v node_mem \<Rightarrow> bool" where
  "nodeIsExpired_mem now node = (deleteTimestamp node <s UnixMilli now)"

definition Set_mem :: "time \<Rightarrow> string \<Rightarrow> 'v \<Rightarrow> int64 \<Rightarrow> 'v KeyValueStore_mem \<Rightarrow> 'v KeyValueStore_mem" where
  "Set_mem now key val ttl d = d\<lparr>data_mem := (data_mem d)(key \<mapsto> newNode_mem now key val ttl)\<rparr>"

definition Get_mem :: "time \<Rightarrow> string \<Rightarrow> 'v KeyValueStore_mem \<Rightarrow> 'v KeyValueStore_mem \<times> ('v option \<times> bool)" where
  "Get_mem now key d =
     (case data_mem d key of
        None \<Rightarrow> (d, (None, False))
      | Some val \<Rightarrow>
          if nodeIsExpired_mem now val then (d, (None, False))
          else (d, (Some (value_mem val), True)))"

definition Delete_mem :: "string \<Rightarrow> 'v KeyValueStore_mem \<Rightarrow> 'v KeyValueStore_mem" where
  "Delete_mem key d = d\<lparr>data_mem := (data_mem d)(key := None)\<rparr>"

fun LengthLoop_mem :: "'v KeyValueStore_mem \<Rightarrow> (string \<Rightarrow> time) \<Rightarrow> string list \<Rightarrow> nat \<Rightarrow> nat" where
  "LengthLoop_mem d clk [] counter = counter"
| "LengthLoop_mem d clk (key # keys) counter =
     (case data_mem d key of
        None \<Rightarrow> LengthLoop_mem d clk keys counter
      | Some node \<Rightarrow>
          if \<not> nodeIsExpired_mem (clk key) node then LengthLoop_mem d clk keys (counter + 1)
          else LengthLoop_mem d clk keys counter)"

definition Length_mem :: "(string \<Rightarrow> time) \<Rightarrow> string list \<Rightarrow> 'v KeyValueStore_mem \<Rightarrow> 'v KeyValueStore_mem \<times> nat" where
  "Length_mem clk keys d = (d, LengthLoop_mem d clk keys 0)"

fun cleanPass_mem :: "(string \<Rightarrow> time) \<Rightarrow> string list \<Rightarrow> 'v KeyValueStore_mem \<Rightarrow> 'v KeyValueStore_mem" where
  "cleanPass_mem clk [] d = d"
| "cleanPass_mem clk (key # keys) d =
     (case data_mem d key of
        None \<Rightarrow> cleanPass_mem clk keys d
      | Some node \<Rightarrow>
          if nodeIsExpired_mem (clk key) node
          then cleanPass_mem clk keys (d\<lparr>data_mem := (data_mem d)(key := None)\<rparr>)
          else cleanPass_mem clk keys d)"

definition NewKeyValueStore_mem :: "'v KeyValueStore_mem" where
  "NewKeyValueStore_mem = \<lparr>data_mem = Map.empty\<rparr>"

subsection \<open>Concrete instances for the closed examples\<close>

text \<open>
  A stand-in for the library: the digest of a key is the key, paths are joined with a
  slash, a node is written as its key and every file decodes to a node with the value
  \<open>''v''\<close> and the deadline \<open>ts\<close>. \<open>exFs\<close> is a file system with the given files in
  which exactly the paths of \<open>locked\<close> are refused; \<open>exStore\<close> is a store with the given
  entries.
\<close>

definition exLib :: "int64 \<Rightarrow> string lib" where
  "exLib ts =
     \<lparr>Sum256Hex = (\<lambda>key. key),
      Join = (\<lambda>dir name. dir @ ''/'' @ name),
      Marshal = (\<lambda>node. Inr (Key node)),
      Unmarshal = (\<lambda>bytes. Inr \<lparr>Key = bytes, Value = ''v'', DeleteTimestamp = ts\<rparr>)\<rparr>"

definition exFs :: "(string \<times> string) list \<Rightarrow> string list \<Rightarrow> string list \<Rightarrow> fsys" where
  "exFs contents locked entries =
     \<lparr>files = map_of contents,
      denied = (\<lambda>name. name \<in> set locked),
      listing = (\<lambda>dir. Inr entries)\<rparr>"

definition exStore :: "(string \<times> string node) list \<Rightarrow> string \<Rightarrow> string KeyValueStore" where
  "exStore entries folder = \<lparr>data = map_of entries, cacheFolder = folder\<rparr>"

subsection \<open>Calls, replies and runs\<close>

text \<open>
  A call of the public interface, or one pass of the sweeper, with the readings of the
  clock and the iteration order it meets. \<open>exec\<close> performs it on the store with a cache
  folder, \<open>exec_mem\<close> on the in-memory store. \<^verbatim>\<open>Set\<close> and \<^verbatim>\<open>Delete\<close> of the in-memory
  revision return nothing (\<open>NoResult\<close>); those of the other revision return an error
  value (\<open>Err\<close>). A run performs the calls in order and ends at a panic.
\<close>

datatype 'v call =
    CallSet time string 'v int64
  | CallGet time string
  | CallDelete string
  | CallLength "string \<Rightarrow> time" "string list"
  | CallSweep "string \<Rightarrow> time" "string list"

datatype 'v reply =
    NoResult
  | Err "error option"
  | Found "'v option" bool
  | Count nat
  | Panic error

fun exec :: "'v lib \<Rightarrow> 'v call \<Rightarrow> 'v world \<Rightarrow> 'v world \<times> 'v reply" where
  "exec L (CallSet now key val ttl) w =
     (case Set L now key val ttl w of (w', err) \<Rightarrow> (w', Err err))"
| "exec L (CallGet now key) w =
     (case Get now key w of (w', (val, ok)) \<Rightarrow> (w', Found val ok))"
| "exec L (CallDelete key) w =
     (case Delete L key w of (w', err) \<Rightarrow> (w', Err err))"
| "exec L (CallLength clk keys) w =
     (case Length clk keys w of (w', n) \<Rightarrow> (w', Count n))"
| "exec L (CallSweep clk keys) w =
     (case cleanPass L clk keys w of
        Completed w' \<Rightarrow> (w', NoResult)
      | Panicked err w' \<Rightarrow> (w', Panic err))"

fun exec_mem :: "'v call \<Rightarrow> 'v KeyValueStore_mem \<Rightarrow> 'v KeyValueStore_mem \<times> 'v reply" where
  "exec_mem (CallSet now key val ttl) d = (Set_mem now key val ttl d, NoResult)"
| "exec_mem (CallGet now key) d =
     (case Get_mem now key d of (d', (val, ok)) \<Rightarrow> (d', Found val ok))"
| "exec_mem (CallDelete key) d = (Delete_mem key d, NoResult)"
| "exec_mem (CallLength clk keys) d =
     (case Length_mem clk keys d of (d', n) \<Rightarrow> (d', Count n))"
| "exec_mem (CallSweep clk keys) d = (cleanPass_mem clk keys d, NoResult)"

fun isPanic :: "'v reply \<Rightarrow> bool" where
  "isPanic (Panic err) = True"
| "isPanic r = False"

fun run :: "'v lib \<Rightarrow> 'v call list \<Rightarrow> 'v world \<Rightarrow> 'v reply list \<times> 'v world" where
  "run L [] w = ([], w)"
| "run L (c # cs) w =
     (case exec L c w of
        (w', r) \<Rightarrow>
          if isPanic r then ([r], w')
          else (case run L cs w' of (rs, w'') \<Rightarrow> (r # rs, w'')))"

fun run_mem :: "'v call list \<Rightarrow> 'v KeyValueStore_mem \<Rightarrow> 'v reply list \<times> 'v KeyValueStore_mem" where
  "run_mem [] d = ([], d)"
| "run_mem (c # cs) d =
     (case exec_mem c d of
        (d', r) \<Rightarrow> (case run_mem cs d' of (rs, d'') \<Rightarrow> (r # rs, d'')))"

text \<open>
  What a caller of both revisions can compare: a \<^verbatim>\<open>nil\<close> error of the store with a
  cache folder stands for the missing result of the in-memory store.
\<close>

fun observed :: "'v reply \<Rightarrow> 'v reply" where
  "observed (Err None) = NoResult"
| "observed r = r"

fun isSetZero :: "'v call \<Rightarrow> bool" where
  "isSetZero (CallSet now key val ttl) = (ttl = 0)"
| "isSetZero c = False"

text \<open>The entry of the in-memory revision with the same three fields.\<close>

definition toMem :: "'v node \<Rightarrow> 'v node_mem" where
  "toMem node =
     \<lparr>key_mem = Key node, value_mem = Value node, deleteTimestamp = DeleteTimestamp node\<rparr>"

definition sameEntries :: "'v KeyValueStore \<Rightarrow> 'v KeyValueStore_mem \<Rightarrow> bool" where
  "sameEntries d m = (\<forall>k. data_mem m k = map_option toMem (data d k))"

text \<open>The invariant of the map: every entry is stored under its own key.\<close>

definition keysMatch :: "'v KeyValueStore \<Rightarrow> bool" where
  "keysMatch d = (\<forall>k node. data d k = Some node \<longrightarrow> Key node = k)"

definition keysMatch_mem :: "'v KeyValueStore_mem \<Rightarrow> bool" where
  "keysMatch_mem d = (\<forall>k node. data_mem d k = Some node \<longrightarrow> key_mem node = k)"

fun worldOf :: "'a outcome \<Rightarrow> 'a" where
  "worldOf (Completed w) = w"
| "worldOf (Panicked err w) = w"

subsection \<open>The mirror file format\<close>






















section \<open>Properties\<close>

subsection \<open>Clock readings as machine integers\<close>

lemma sint_UnixMilli:
  assumes "- (2 ^ 63) \<le> t div 1000000" and "t div 1000000 < 2 ^ 63"
  shows "sint (UnixMilli t) = t div 1000000"
proof -
  have "sint (word_of_int (t div 1000000) :: 64 word) = signed_take_bit 63 (t div 1000000)"
    by (simp add: sint_sbintrunc')
  also have "\<dots> = t div 1000000"
    using assms by (rule signed_take_bit_int_eq_self)
  finally show ?thesis by (simp add: UnixMilli_def)
qed

lemma sint_MaxInt_Millisecond: "sint (MaxInt * Millisecond) = - 1000000"
  by (simp add: MaxInt_def Millisecond_def)

lemma newNode_zero_deadline:
  "DeleteTimestamp (newNode now k v 0) = UnixMilli (now - 1000000)"
  by (simp add: newNode_def Add_def sint_MaxInt_Millisecond)

lemma nodeIsExpired_zero:
  assumes "1000000 \<le> now" "now \<le> t" "t < 2 ^ 63"
  shows "nodeIsExpired t (newNode now k v 0)"
proof -
  have a: "sint (UnixMilli (now - 1000000)) = (now - 1000000) div 1000000"
    using assms by (intro sint_UnixMilli) auto
  have b: "sint (UnixMilli t) = t div 1000000"
    using assms by (intro sint_UnixMilli) auto
  have "(now - 1000000) div 1000000 = now div 1000000 - 1"
    by simp
  moreover have "now div 1000000 \<le> t div 1000000"
    using assms by (simp add: zdiv_mono1)
  ultimately show ?thesis
    by (simp add: nodeIsExpired_def newNode_zero_deadline word_sless_alt a b)
qed

lemma data_after_Set:
  "data (fst (fst (Set L now k v ttl w))) k = Some (newNode now k v ttl)"
  by (cases w) (simp add: Set_def Let_def split: prod.splits)

subsection \<open>C1: a TTL of zero\<close>

text \<open>
  Claim C1 says that \<^verbatim>\<open>Set(k, v, 0)\<close> stores an entry whose deadline is the largest
  instant, so that the entry is never expired and \<^verbatim>\<open>Get(k)\<close> returns \<open>(v, true)\<close> at
  every later instant. The code does not do that. \<^verbatim>\<open>newNode\<close> replaces the TTL \<open>0\<close> by
  \<^verbatim>\<open>math.MaxInt\<close>, and \<^verbatim>\<open>time.Duration(ttl) * time.Millisecond\<close> then wraps around
  to minus one millisecond. For every instant \<open>now\<close> from 1970-01-01 00:00:00.001 on and
  every instant \<open>t\<close> from \<open>now\<close> up to the year 2262: the deadline stored by
  \<^verbatim>\<open>Set(k, v, 0)\<close> at \<open>now\<close> is the millisecond before \<open>now\<close>, it is not
  \<^verbatim>\<open>math.MaxInt\<close>, the entry is expired at \<open>t\<close>, and \<^verbatim>\<open>Get(k)\<close> at \<open>t\<close> returns
  \<open>(nil, false)\<close>.
\<close>

theorem Set_ttl_zero_is_expired:
  assumes "1000000 \<le> now" "now \<le> t" "t < 2 ^ 63"
  shows "DeleteTimestamp (newNode now k v 0) = UnixMilli now - 1
       \<and> DeleteTimestamp (newNode now k v 0) \<noteq> MaxInt
       \<and> nodeIsExpired t (newNode now k v 0)
       \<and> data (fst (fst (Set L now k v 0 w))) k = Some (newNode now k v 0)
       \<and> snd (Get t k (fst (Set L now k v 0 w))) = (None, False)"
proof -
  have e: "nodeIsExpired t (newNode now k v 0)"
    using assms by (rule nodeIsExpired_zero)
  have d: "DeleteTimestamp (newNode now k v 0) = UnixMilli now - 1"
  proof -
    have "(now - 1000000) div 1000000 = now div 1000000 - 1" by simp
    then show ?thesis by (simp add: newNode_zero_deadline UnixMilli_def)
  qed
  have s: "data (fst (fst (Set L now k v 0 w))) k = Some (newNode now k v 0)"
    by (rule data_after_Set)
  have g: "snd (Get t k (fst (Set L now k v 0 w))) = (None, False)"
    using e s by (cases "fst (Set L now k v 0 w)") (simp add: Get_def)
  have m: "DeleteTimestamp (newNode now k v 0) \<noteq> MaxInt"
  proof
    assume "DeleteTimestamp (newNode now k v 0) = MaxInt"
    then have "sint (UnixMilli (now - 1000000)) = sint MaxInt"
      by (simp add: newNode_zero_deadline)
    moreover have "sint (UnixMilli (now - 1000000)) = (now - 1000000) div 1000000"
      using assms by (intro sint_UnixMilli) auto
    moreover have "(now - 1000000) div 1000000 < 9223372036854775807"
      using assms by simp
    ultimately show False by (simp add: MaxInt_def)
  qed
  show ?thesis using e d s g m by simp
qed

theorem Set_ttl_zero_is_expired_witness:
  "(1000000::int) \<le> 1700000000000000000
   \<and> (1700000000000000000::int) \<le> 1700000000000000000
   \<and> (1700000000000000000::int) < 2 ^ 63
   \<and> DeleteTimestamp (newNode 1700000000000000000 ''k'' ''1'' 0) = 1699999999999
   \<and> nodeIsExpired 1700000000000000000 (newNode 1700000000000000000 ''k'' ''1'' 0)
   \<and> snd (Get 1700000000000000000 ''k''
        (fst (Set (exLib 0) 1700000000000000000 ''k'' ''1'' 0 (exStore [] [], exFs [] [] []))))
      = (None, False)"
  using Set_ttl_zero_is_expired [of 1700000000000000000 1700000000000000000 "''k''" "''1''"
      "exLib 0" "(exStore [] [], exFs [] [] [])"]
  by (simp add: UnixMilli_def)

subsection \<open>C2: a mirror deletion that fails during a sweep\<close>

lemma cleanPass_append:
  "cleanPass L clk (xs @ ys) w =
     (case cleanPass L clk xs w of
        Completed w' \<Rightarrow> cleanPass L clk ys w'
      | Panicked err w' \<Rightarrow> Panicked err w')"
  by (induction xs arbitrary: w)
     (auto simp: Let_def split: option.splits prod.splits outcome.splits)

lemma deleteInCache_frame:
  "deleteInCache L key (d, fs) = (fs', r) \<Longrightarrow> denied fs' = denied fs \<and> listing fs' = listing fs"
  by (auto simp: deleteInCache_def getFileName_def Remove_def
           split: if_splits option.splits prod.splits sum.splits)

lemma deleteInCache_ok:
  "\<forall>name. \<not> denied fs name \<Longrightarrow> snd (deleteInCache L key (d, fs)) = None"
  by (auto simp: deleteInCache_def getFileName_def Remove_def IsNotExist_def
           split: if_splits option.splits prod.splits sum.splits)

lemma cleanPass_completes:
  "\<forall>name. \<not> denied fs name \<Longrightarrow>
   \<exists>d' fs'. cleanPass L clk keys (d, fs) = Completed (d', fs')
     \<and> (\<forall>name. \<not> denied fs' name)
     \<and> cacheFolder d' = cacheFolder d
     \<and> data d' = (\<lambda>k. case data d k of None \<Rightarrow> None
                     | Some node \<Rightarrow> if k \<in> set keys \<and> nodeIsExpired (clk k) node then None else Some node)"
proof (induction keys arbitrary: d fs)
  case Nil
  then show ?case by (auto split: option.splits)
next
  case (Cons key keys)
  show ?case
  proof (cases "data d key")
    case None
    with Cons.IH [OF Cons.prems, of d] show ?thesis
      by (auto split: option.splits intro!: ext)
  next
    case (Some node)
    show ?thesis
    proof (cases "nodeIsExpired (clk key) node")
      case False
      with Some Cons.IH [OF Cons.prems, of d] show ?thesis
        by (auto split: option.splits intro!: ext)
    next
      case True
      let ?d = "d\<lparr>data := (data d)(key := None)\<rparr>"
      obtain fs1 where del: "deleteInCache L key (?d, fs) = (fs1, None)"
        using deleteInCache_ok [OF Cons.prems, of L key ?d]
        by (cases "deleteInCache L key (?d, fs)") auto
      have nd: "\<forall>name. \<not> denied fs1 name"
        using deleteInCache_frame [OF del] Cons.prems by simp
      from Cons.IH [OF nd, of ?d] obtain d' fs' where
        "cleanPass L clk keys (?d, fs1) = Completed (d', fs')"
        "\<forall>name. \<not> denied fs' name" "cacheFolder d' = cacheFolder ?d"
        "data d' = (\<lambda>k. case data ?d k of None \<Rightarrow> None
                     | Some node \<Rightarrow> if k \<in> set keys \<and> nodeIsExpired (clk k) node then None else Some node)"
        by blast
      with True Some del show ?thesis
        by (auto split: option.splits intro!: ext)
    qed
  qed
qed

text \<open>
  Claim C2 says that a mirror deletion that fails during a sweep neither stops the loop
  nor crashes the process, and that the rest of the pass still completes. In the code
  the sweeper panics on that error. Counterexample: the entries \<open>a\<close> and \<open>b\<close> are both
  expired and the file of \<open>a\<close> cannot be removed. The loop, given two passes, ends in a
  panic with the permission error during the first one; \<open>b\<close>, which comes after \<open>a\<close> in
  the pass, is still in the map although it is expired, and its file is still there.
\<close>

theorem sweep_failure_counterexample:
  "case clean (exLib 0) [(\<lambda>_. 5000000, [''a'', ''b'']), (\<lambda>_. 5000000, [''b''])]
         (exStore [(''a'', \<lparr>Key = ''a'', Value = ''1'', DeleteTimestamp = 1\<rparr>),
                   (''b'', \<lparr>Key = ''b'', Value = ''2'', DeleteTimestamp = 1\<rparr>)] ''c'',
          exFs [(''c/a.store.json'', ''a''), (''c/b.store.json'', ''b'')] [''c/a.store.json''] [])
   of Panicked err w' \<Rightarrow>
        err = ErrPermission
        \<and> data (fst w') ''b'' = Some \<lparr>Key = ''b'', Value = ''2'', DeleteTimestamp = 1\<rparr>
        \<and> nodeIsExpired 5000000 \<lparr>Key = ''b'', Value = ''2'', DeleteTimestamp = 1\<rparr>
        \<and> files (snd w') ''c/b.store.json'' = Some ''b''
    | Completed w' \<Rightarrow> False"
  by (simp add: exLib_def exStore_def exFs_def deleteInCache_def getFileName_def Remove_def
        IsNotExist_def nodeIsExpired_def UnixMilli_def word_sless_alt)

text \<open>
  Claim C2 as amended. When the deletion of the mirror file of an expired entry fails
  during a pass (with an error other than "does not exist"), the sweeper panics with
  that error: the entry has already been removed from the map, the keys that come after
  it in the pass are not visited, and no later pass runs. When the operating system
  refuses no path, a pass completes, and it removes from the map exactly the visited
  entries that are expired at their clock reading.
\<close>

theorem clean_panics_on_deletion_failure:
  "(cleanPass L clk pre w = Completed (d, fs)
      \<and> data d key = Some node \<and> nodeIsExpired (clk key) node
      \<and> deleteInCache L key (d\<lparr>data := (data d)(key := None)\<rparr>, fs) = (fs', Some err)
    \<longrightarrow> cleanPass L clk (pre @ key # post) w = Panicked err (d\<lparr>data := (data d)(key := None)\<rparr>, fs')
      \<and> clean L ((clk, pre @ key # post) # passes) w = Panicked err (d\<lparr>data := (data d)(key := None)\<rparr>, fs'))
   \<and> ((\<forall>name. \<not> denied (snd u) name)
    \<longrightarrow> (\<exists>u'. cleanPass L clk keys u = Completed u'
          \<and> data (fst u') = (\<lambda>k. case data (fst u) k of None \<Rightarrow> None
                     | Some node \<Rightarrow> if k \<in> set keys \<and> nodeIsExpired (clk k) node then None else Some node)))"
proof (intro conjI impI)
  assume a: "cleanPass L clk pre w = Completed (d, fs)
      \<and> data d key = Some node \<and> nodeIsExpired (clk key) node
      \<and> deleteInCache L key (d\<lparr>data := (data d)(key := None)\<rparr>, fs) = (fs', Some err)"
  then show p: "cleanPass L clk (pre @ key # post) w = Panicked err (d\<lparr>data := (data d)(key := None)\<rparr>, fs')"
    by (simp add: cleanPass_append)
  then show "clean L ((clk, pre @ key # post) # passes) w = Panicked err (d\<lparr>data := (data d)(key := None)\<rparr>, fs')"
    by simp
next
  assume "\<forall>name. \<not> denied (snd u) name"
  then show "\<exists>u'. cleanPass L clk keys u = Completed u'
          \<and> data (fst u') = (\<lambda>k. case data (fst u) k of None \<Rightarrow> None
                     | Some node \<Rightarrow> if k \<in> set keys \<and> nodeIsExpired (clk k) node then None else Some node)"
    using cleanPass_completes [of "snd u" L clk keys "fst u"] by auto
qed

theorem clean_panics_on_deletion_failure_witness:
  "cleanPass (exLib 0) (\<lambda>_. 5000000) ([] @ ''a'' # [''b''])
      (exStore [(''a'', \<lparr>Key = ''a'', Value = ''1'', DeleteTimestamp = 1\<rparr>),
                (''b'', \<lparr>Key = ''b'', Value = ''2'', DeleteTimestamp = 1\<rparr>)] ''c'',
       exFs [(''c/a.store.json'', ''a'')] [''c/a.store.json''] [])
    = Panicked ErrPermission
       ((exStore [(''a'', \<lparr>Key = ''a'', Value = ''1'', DeleteTimestamp = 1\<rparr>),
                  (''b'', \<lparr>Key = ''b'', Value = ''2'', DeleteTimestamp = 1\<rparr>)] ''c'')
          \<lparr>data := (data (exStore [(''a'', \<lparr>Key = ''a'', Value = ''1'', DeleteTimestamp = 1\<rparr>),
                  (''b'', \<lparr>Key = ''b'', Value = ''2'', DeleteTimestamp = 1\<rparr>)] ''c''))(''a'' := None)\<rparr>,
        exFs [(''c/a.store.json'', ''a'')] [''c/a.store.json''] [])
   \<and> (\<exists>u'. cleanPass (exLib 0) (\<lambda>_. 5000000) [''a'']
          (exStore [(''a'', \<lparr>Key = ''a'', Value = ''1'', DeleteTimestamp = 1\<rparr>)] ''c'',
           exFs [(''c/a.store.json'', ''a'')] [] []) = Completed u'
        \<and> data (fst u') ''a'' = None)"
proof -
  let ?n = "\<lparr>Key = ''a'', Value = ''1'', DeleteTimestamp = 1\<rparr> :: string node"
  let ?d = "exStore [(''a'', ?n), (''b'', \<lparr>Key = ''b'', Value = ''2'', DeleteTimestamp = 1\<rparr>)] ''c''"
  let ?fs = "exFs [(''c/a.store.json'', ''a'')] [''c/a.store.json''] []"
  let ?u = "(exStore [(''a'', ?n)] ''c'', exFs [(''c/a.store.json'', ''a'')] [] [])"
  have h1: "cleanPass (exLib 0) (\<lambda>_. 5000000) [] (?d, ?fs) = Completed (?d, ?fs)
      \<and> data ?d ''a'' = Some ?n \<and> nodeIsExpired ((\<lambda>_. 5000000) ''a'') ?n
      \<and> deleteInCache (exLib 0) ''a'' (?d\<lparr>data := (data ?d)(''a'' := None)\<rparr>, ?fs) = (?fs, Some ErrPermission)"
    by (simp add: exLib_def exStore_def exFs_def deleteInCache_def getFileName_def Remove_def
        IsNotExist_def nodeIsExpired_def UnixMilli_def word_sless_alt)
  have h2: "\<forall>name. \<not> denied (snd ?u) name"
    by (simp add: exFs_def)
  have n: "nodeIsExpired 5000000 ?n"
    by (simp add: nodeIsExpired_def UnixMilli_def word_sless_alt)
  from clean_panics_on_deletion_failure [of "exLib 0" "\<lambda>_. 5000000" "[]" "(?d, ?fs)" ?d ?fs "''a''" ?n
      ?fs ErrPermission "[''b'']" "[]" ?u "[''a'']"] h1 h2
  show ?thesis
    by (auto simp: exStore_def n)
qed

subsection \<open>C3: replay of a mirror file at startup\<close>

lemma newNode_one_deadline:
  "DeleteTimestamp (newNode now k v 1) = UnixMilli now + 1"
proof -
  have "(now + 1000000) div 1000000 = now div 1000000 + 1" by simp
  then show ?thesis
    by (simp add: newNode_def Add_def Millisecond_def UnixMilli_def)
qed

lemma newNode_zero_deadline':
  "DeleteTimestamp (newNode now k v 0) = UnixMilli now - 1"
proof -
  have "(now - 1000000) div 1000000 = now div 1000000 - 1" by simp
  then show ?thesis by (simp add: newNode_zero_deadline UnixMilli_def)
qed

text \<open>
  Claim C3 says that an entry recovered at startup whose remaining time (the persisted
  deadline minus the current time) is zero or negative is reinserted with a minimal
  positive TTL. \<^verbatim>\<open>init\<close> tests \<^verbatim>\<open>timeLeft < 0\<close> only. For a directory entry with the
  store's suffix whose file is read and decoded to \<open>node\<close>, and whose persisted deadline
  equals the current millisecond (the remainder is zero): the entry is replayed through
  \<^verbatim>\<open>Set\<close> with the TTL \<open>0\<close>, not \<open>1\<close>; the node stored under its key is the one
  \<^verbatim>\<open>newNode\<close> builds for the TTL \<open>0\<close>, whose deadline is the millisecond before the
  reading of the clock in \<^verbatim>\<open>newNode\<close>, and that is not the deadline of the TTL \<open>1\<close>.
\<close>

theorem init_replays_zero_remainder_with_ttl_zero:
  assumes "HasSuffix file ''.store.json''"
    and "ReadFile (snd w) (Join L (cacheFolder (fst w)) file) = Inr fileData"
    and "Unmarshal L fileData = Inr node"
    and "DeleteTimestamp node = UnixMilli (fst (clk file))"
  shows "initLoop L clk (file # entries) w
           = initLoop L clk entries (fst (Set L (snd (clk file)) (Key node) (Value node) 0 w))
       \<and> data (fst (fst (initLoop L clk [file] w))) (Key node)
           = Some (newNode (snd (clk file)) (Key node) (Value node) 0)
       \<and> DeleteTimestamp (newNode (snd (clk file)) (Key node) (Value node) 0)
           = UnixMilli (snd (clk file)) - 1
       \<and> DeleteTimestamp (newNode (snd (clk file)) (Key node) (Value node) 0)
           \<noteq> DeleteTimestamp (newNode (snd (clk file)) (Key node) (Value node) 1)"
proof -
  have step: "initLoop L clk (file # entries) w
           = initLoop L clk entries (fst (Set L (snd (clk file)) (Key node) (Value node) 0 w))"
    for entries
    using assms by (cases w) (simp add: Let_def)
  have "UnixMilli (snd (clk file)) - 1 \<noteq> UnixMilli (snd (clk file)) + 1"
    by simp
  then show ?thesis
    using step [of entries] step [of "[]"]
    by (simp add: data_after_Set newNode_zero_deadline' newNode_one_deadline)
qed

theorem init_replays_zero_remainder_with_ttl_zero_witness:
  "HasSuffix ''k.store.json'' ''.store.json''
   \<and> ReadFile (exFs [(''c/k.store.json'', ''k'')] [] [''k.store.json''])
        (Join (exLib 1700000000000) ''c'' ''k.store.json'') = Inr ''k''
   \<and> Unmarshal (exLib 1700000000000) ''k''
        = Inr \<lparr>Key = ''k'', Value = ''v'', DeleteTimestamp = 1700000000000\<rparr>
   \<and> UnixMilli 1700000000000000000 = 1700000000000
   \<and> data (fst (fst (initLoop (exLib 1700000000000)
              (\<lambda>_. (1700000000000000000, 1700000000000000000)) [''k.store.json'']
              (exStore [] ''c'', exFs [(''c/k.store.json'', ''k'')] [] [''k.store.json''])))) ''k''
       = Some \<lparr>Key = ''k'', Value = ''v'', DeleteTimestamp = 1699999999999\<rparr>"
proof -
  let ?L = "exLib 1700000000000"
  let ?w = "(exStore [] ''c'', exFs [(''c/k.store.json'', ''k'')] [] [''k.store.json''])"
  let ?n = "\<lparr>Key = ''k'', Value = ''v'', DeleteTimestamp = 1700000000000\<rparr> :: string node"
  have h1: "HasSuffix ''k.store.json'' ''.store.json''"
    by (simp add: HasSuffix_def)
  have h2: "ReadFile (snd ?w) (Join ?L (cacheFolder (fst ?w)) ''k.store.json'') = Inr ''k''"
    by (simp add: ReadFile_def exFs_def exLib_def exStore_def)
  have h3: "Unmarshal ?L ''k'' = Inr ?n"
    by (simp add: exLib_def)
  have h4: "DeleteTimestamp ?n = UnixMilli (fst ((\<lambda>_. (1700000000000000000, 1700000000000000000)) ''k.store.json''))"
    by (simp add: UnixMilli_def)
  from init_replays_zero_remainder_with_ttl_zero [of "''k.store.json''" ?w ?L "''k''" ?n
      "\<lambda>_. (1700000000000000000, 1700000000000000000)" "[]", OF h1 h2 h3 h4] h1 h2 h3
  show ?thesis
    by (simp add: newNode_def Add_def sint_MaxInt_Millisecond UnixMilli_def exStore_def)
qed

subsection \<open>C4: a mirror write that fails\<close>

text \<open>
  Claim C4: when the store has a cache folder and the write of the mirror file fails,
  \<^verbatim>\<open>Set(k, v, ttl)\<close> returns that error and the map holds the new entry for \<open>k\<close> all
  the same: the node is put into the map before the file is written.
\<close>

theorem Set_write_failure_keeps_memory_write:
  assumes "cacheFolder (fst w) \<noteq> []"
    and "Marshal L (newNode now k v ttl) = Inr bytes"
    and "snd (WriteFile (snd w) (Join L (cacheFolder (fst w)) (Sum256Hex L k @ ''.store.json'')) bytes)
           = Some err"
  shows "snd (Set L now k v ttl w) = Some err
       \<and> data (fst (fst (Set L now k v ttl w))) k = Some (newNode now k v ttl)"
proof -
  have "Key (newNode now k v ttl) = k"
    by (simp add: newNode_def Let_def)
  then have "snd (Set L now k v ttl w) = Some err"
    using assms
    by (cases w) (auto simp: Set_def Let_def saveInCache_def getFileName_def split: prod.splits)
  then show ?thesis by (simp add: data_after_Set)
qed

theorem Set_write_failure_keeps_memory_write_witness:
  "cacheFolder (exStore [] ''c'') \<noteq> []
   \<and> Marshal (exLib 0) (newNode 1700000000000000000 ''k'' ''1'' 100) = Inr ''k''
   \<and> snd (WriteFile (exFs [] [''c/k.store.json''] []) ''c/k.store.json'' ''k'') = Some ErrPermission
   \<and> snd (Set (exLib 0) 1700000000000000000 ''k'' ''1'' 100
           (exStore [] ''c'', exFs [] [''c/k.store.json''] [])) = Some ErrPermission
   \<and> data (fst (fst (Set (exLib 0) 1700000000000000000 ''k'' ''1'' 100
           (exStore [] ''c'', exFs [] [''c/k.store.json''] [])))) ''k''
       = Some \<lparr>Key = ''k'', Value = ''1'', DeleteTimestamp = 1700000000100\<rparr>"
proof -
  let ?w = "(exStore [] ''c'', exFs [] [''c/k.store.json''] [])"
  have h1: "cacheFolder (fst ?w) \<noteq> []"
    by (simp add: exStore_def)
  have h2: "Marshal (exLib 0) (newNode 1700000000000000000 ''k'' ''1'' 100) = Inr ''k''"
    by (simp add: exLib_def newNode_def Let_def)
  have h3: "snd (WriteFile (snd ?w) (Join (exLib 0) (cacheFolder (fst ?w)) (Sum256Hex (exLib 0) ''k'' @ ''.store.json'')) ''k'')
           = Some ErrPermission"
    by (simp add: WriteFile_def exFs_def exLib_def exStore_def)
  have n: "newNode 1700000000000000000 ''k'' ''1'' 100 = \<lparr>Key = ''k'', Value = ''1'', DeleteTimestamp = 1700000000100\<rparr>"
    by (simp add: newNode_def Add_def Millisecond_def UnixMilli_def)
  from Set_write_failure_keeps_memory_write [OF h1 h2 h3] h1 h2 h3
  show ?thesis
    by (simp add: n exStore_def exLib_def exFs_def)
qed

subsection \<open>C5: the round trip through the mirror file\<close>















subsection \<open>C6: the length of the store\<close>

lemma LengthLoop_count:
  "LengthLoop d clk keys c =
     c + length (filter (\<lambda>k. case data d k of None \<Rightarrow> False
                              | Some node \<Rightarrow> \<not> nodeIsExpired (clk k) node) keys)"
  by (induction keys arbitrary: c) (auto split: option.splits)

text \<open>
  Claim C6: \<^verbatim>\<open>Length()\<close> returns the number of entries of the map that are not expired
  at the time of the call, and it never counts an entry that is expired and not yet
  swept. The loop visits every key of the map once (\<open>keys\<close> lists the keys without
  repetition), and all its readings of the clock fall into the millisecond of \<open>now\<close>.
  The call leaves the store and the files as they are.
\<close>

theorem Length_counts_live_entries:
  assumes "distinct keys"
    and "set keys = dom (data (fst w))"
    and "\<forall>k\<in>set keys. UnixMilli (clk k) = UnixMilli now"
  shows "snd (Length clk keys w)
           = card {k. \<exists>node. data (fst w) k = Some node \<and> \<not> nodeIsExpired now node}
       \<and> fst (Length clk keys w) = w"
proof -
  let ?P = "\<lambda>k. case data (fst w) k of None \<Rightarrow> False
                 | Some node \<Rightarrow> \<not> nodeIsExpired (clk k) node"
  have "snd (Length clk keys w) = length (filter ?P keys)"
    by (cases w) (simp add: Length_def LengthLoop_count)
  also have "\<dots> = card (set (filter ?P keys))"
    using assms(1) distinct_card [of "filter ?P keys"] by (simp only: distinct_filter)
  also have "set (filter ?P keys)
               = {k. \<exists>node. data (fst w) k = Some node \<and> \<not> nodeIsExpired now node}"
    using assms(2,3)
    by (auto simp: nodeIsExpired_def dom_def split: option.splits)
  finally show ?thesis
    by (cases w) (simp add: Length_def)
qed

theorem Length_counts_live_entries_witness:
  "distinct [''a'', ''b'', ''c'']
   \<and> set [''a'', ''b'', ''c'']
       = dom (data (exStore [(''a'', \<lparr>Key = ''a'', Value = ''1'', DeleteTimestamp = 1\<rparr>),
                             (''b'', \<lparr>Key = ''b'', Value = ''2'', DeleteTimestamp = 5\<rparr>),
                             (''c'', \<lparr>Key = ''c'', Value = ''3'', DeleteTimestamp = 9\<rparr>)] []))
   \<and> snd (Length (\<lambda>_. 5000000) [''a'', ''b'', ''c'']
        (exStore [(''a'', \<lparr>Key = ''a'', Value = ''1'', DeleteTimestamp = 1\<rparr>),
                  (''b'', \<lparr>Key = ''b'', Value = ''2'', DeleteTimestamp = 5\<rparr>),
                  (''c'', \<lparr>Key = ''c'', Value = ''3'', DeleteTimestamp = 9\<rparr>)] [], exFs [] [] [])) = 2
   \<and> card {k. \<exists>node. data (exStore [(''a'', \<lparr>Key = ''a'', Value = ''1'', DeleteTimestamp = 1\<rparr>),
                  (''b'', \<lparr>Key = ''b'', Value = ''2'', DeleteTimestamp = 5\<rparr>),
                  (''c'', \<lparr>Key = ''c'', Value = ''3'', DeleteTimestamp = 9\<rparr>)] []) k = Some node
                \<and> \<not> nodeIsExpired 5000000 node} = 2"
proof -
  let ?d = "exStore [(''a'', \<lparr>Key = ''a'', Value = ''1'', DeleteTimestamp = 1\<rparr>),
                  (''b'', \<lparr>Key = ''b'', Value = ''2'', DeleteTimestamp = 5\<rparr>),
                  (''c'', \<lparr>Key = ''c'', Value = ''3'', DeleteTimestamp = 9\<rparr>)] []"
  let ?w = "(?d, exFs [] [] [])"
  have h1: "distinct [''a'', ''b'', ''c'']" by simp
  have h2: "set [''a'', ''b'', ''c''] = dom (data (fst ?w))"
    by (auto simp: exStore_def split: if_splits)
  have h3: "\<forall>k\<in>set [''a'', ''b'', ''c'']. UnixMilli ((\<lambda>_. 5000000) k) = UnixMilli 5000000"
    by simp
  have l: "snd (Length (\<lambda>_. 5000000) [''a'', ''b'', ''c''] ?w) = 2"
    by (simp add: Length_def exStore_def nodeIsExpired_def UnixMilli_def word_sless_alt)
  from Length_counts_live_entries [OF h1 h2 h3] l h1 h2
  show ?thesis by simp
qed

subsection \<open>C7: reading a key\<close>

text \<open>
  Claim C7: \<^verbatim>\<open>Get(k)\<close> returns \<open>(v, true)\<close> exactly when \<open>k\<close> is in the map with an
  entry of value \<open>v\<close> that is not expired at the time of the call; otherwise it returns
  \<open>(nil, false)\<close>. In both cases the store and the files after the call are those
  before it, so an expired entry that is not yet swept stays in the map. The same holds
  for \<^verbatim>\<open>Get\<close> of the in-memory revision.
\<close>

theorem Get_found_iff_live:
  "(snd (Get now k w) = (Some v, True))
     = (\<exists>node. data (fst w) k = Some node \<and> \<not> nodeIsExpired now node \<and> Value node = v)
   \<and> ((\<nexists>node. data (fst w) k = Some node \<and> \<not> nodeIsExpired now node)
        \<longrightarrow> snd (Get now k w) = (None, False))
   \<and> fst (Get now k w) = w
   \<and> (snd (Get_mem now k m) = (Some v, True))
     = (\<exists>node. data_mem m k = Some node \<and> \<not> nodeIsExpired_mem now node \<and> value_mem node = v)
   \<and> ((\<nexists>node. data_mem m k = Some node \<and> \<not> nodeIsExpired_mem now node)
        \<longrightarrow> snd (Get_mem now k m) = (None, False))
   \<and> fst (Get_mem now k m) = m"
  by (cases w) (auto simp: Get_def Get_mem_def split: option.splits)

theorem Get_found_iff_live_witness:
  "snd (Get 5000000 ''b''
      (exStore [(''a'', \<lparr>Key = ''a'', Value = ''1'', DeleteTimestamp = 1\<rparr>),
                (''b'', \<lparr>Key = ''b'', Value = ''2'', DeleteTimestamp = 5\<rparr>)] [], exFs [] [] []))
     = (Some ''2'', True)
   \<and> snd (Get 5000000 ''a''
      (exStore [(''a'', \<lparr>Key = ''a'', Value = ''1'', DeleteTimestamp = 1\<rparr>),
                (''b'', \<lparr>Key = ''b'', Value = ''2'', DeleteTimestamp = 5\<rparr>)] [], exFs [] [] []))
     = (None, False)
   \<and> data (fst (fst (Get 5000000 ''a''
      (exStore [(''a'', \<lparr>Key = ''a'', Value = ''1'', DeleteTimestamp = 1\<rparr>),
                (''b'', \<lparr>Key = ''b'', Value = ''2'', DeleteTimestamp = 5\<rparr>)] [], exFs [] [] [])))) ''a''
     = Some \<lparr>Key = ''a'', Value = ''1'', DeleteTimestamp = 1\<rparr>"
proof -
  let ?w = "(exStore [(''a'', \<lparr>Key = ''a'', Value = ''1'', DeleteTimestamp = 1\<rparr>),
                (''b'', \<lparr>Key = ''b'', Value = ''2'', DeleteTimestamp = 5\<rparr>)] [], exFs [] [] [])"
  have a: "\<nexists>node. data (fst ?w) ''a'' = Some node \<and> \<not> nodeIsExpired 5000000 node"
    by (simp add: exStore_def nodeIsExpired_def UnixMilli_def word_sless_alt)
  have b: "\<exists>node. data (fst ?w) ''b'' = Some node \<and> \<not> nodeIsExpired 5000000 node \<and> Value node = ''2''"
    by (simp add: exStore_def nodeIsExpired_def UnixMilli_def word_sless_alt)
  from Get_found_iff_live [of 5000000 "''a''" ?w] a
  have 1: "snd (Get 5000000 ''a'' ?w) = (None, False)" and 2: "fst (Get 5000000 ''a'' ?w) = ?w"
    by blast+
  from Get_found_iff_live [of 5000000 "''b''" ?w "''2''"] b
  have 3: "snd (Get 5000000 ''b'' ?w) = (Some ''2'', True)"
    by blast
  show ?thesis
    unfolding 1 2 3 by (simp add: exStore_def)
qed

subsection \<open>C8: deleting a key\<close>

lemma store_update_absent:
  "data d k = None \<Longrightarrow> d\<lparr>data := (data d)(k := None)\<rparr> = d"
  by (simp add: fun_upd_idem)

text \<open>
  Claim C8 says that \<^verbatim>\<open>Delete(k)\<close> succeeds without error when the key is absent or
  when its mirror file does not exist. Neither is enough: \<^verbatim>\<open>Delete\<close> tries to remove
  the mirror file whatever the map holds and returns every error of the removal but
  "does not exist". Counterexample: the key \<open>k\<close> is in the map and the operating system
  refuses the removal of its mirror file. The first \<^verbatim>\<open>Delete("k")\<close> removes the key from
  the map and returns the permission error; the second one finds the key absent and
  returns the permission error again. And in a store without the key and without the
  mirror file, on a path that the operating system refuses, \<^verbatim>\<open>Delete("k")\<close> returns the
  permission error as well.
\<close>

theorem Delete_absent_key_counterexample:
  "snd (Delete (exLib 0) ''k''
      (exStore [(''k'', \<lparr>Key = ''k'', Value = ''1'', DeleteTimestamp = 9\<rparr>)] ''c'',
       exFs [(''c/k.store.json'', ''k'')] [''c/k.store.json''] [])) = Some ErrPermission
   \<and> data (fst (fst (Delete (exLib 0) ''k''
      (exStore [(''k'', \<lparr>Key = ''k'', Value = ''1'', DeleteTimestamp = 9\<rparr>)] ''c'',
       exFs [(''c/k.store.json'', ''k'')] [''c/k.store.json''] [])))) ''k'' = None
   \<and> snd (Delete (exLib 0) ''k'' (fst (Delete (exLib 0) ''k''
      (exStore [(''k'', \<lparr>Key = ''k'', Value = ''1'', DeleteTimestamp = 9\<rparr>)] ''c'',
       exFs [(''c/k.store.json'', ''k'')] [''c/k.store.json''] [])))) = Some ErrPermission
   \<and> data (exStore [] ''c'') ''k'' = None
   \<and> files (exFs [] [''c/k.store.json''] []) ''c/k.store.json'' = None
   \<and> snd (Delete (exLib 0) ''k'' (exStore [] ''c'', exFs [] [''c/k.store.json''] []))
       = Some ErrPermission"
  by (simp add: Delete_def deleteInCache_def getFileName_def Remove_def IsNotExist_def
        exLib_def exStore_def exFs_def)

text \<open>
  Claim C8 as amended. \<^verbatim>\<open>Delete(k)\<close> removes \<open>k\<close> from the map in every case. It returns
  no error when the store has no cache folder, or when the removal of the mirror file
  of \<open>k\<close> is answered with "does not exist" (in the file system of the embedding: the
  file is absent and the operating system does not refuse the path), whether \<open>k\<close> is
  in the map or not, and the files are then untouched; when \<open>k\<close> is absent from the map
  the store is unchanged. The error result is the same whatever the map holds: with a
  cache folder, a removal that the operating system refuses gives the permission error,
  with or without a mirror file.
  A delete that returned no error leaves no mirror file behind, a second delete after
  it returns no error either, and the state after two deletes is the state after one.
\<close>

theorem Delete_is_idempotent:
  "data (fst (fst (Delete L k w))) = (data (fst w))(k := None)
   \<and> cacheFolder (fst (fst (Delete L k w))) = cacheFolder (fst w)
   \<and> snd (Delete L k ((fst w)\<lparr>data := entries\<rparr>, snd w)) = snd (Delete L k w)
   \<and> (cacheFolder (fst w) = []
        \<or> (\<not> denied (snd w) (Join L (cacheFolder (fst w)) (Sum256Hex L k @ ''.store.json''))
           \<and> files (snd w) (Join L (cacheFolder (fst w)) (Sum256Hex L k @ ''.store.json'')) = None)
      \<longrightarrow> snd (Delete L k w) = None \<and> snd (fst (Delete L k w)) = snd w)
   \<and> (data (fst w) k = None \<longrightarrow> fst (fst (Delete L k w)) = fst w)
   \<and> (cacheFolder (fst w) \<noteq> []
        \<and> denied (snd w) (Join L (cacheFolder (fst w)) (Sum256Hex L k @ ''.store.json''))
      \<longrightarrow> snd (Delete L k w) = Some ErrPermission \<and> snd (fst (Delete L k w)) = snd w)
   \<and> ((\<exists>err. snd (Remove (snd w) (Join L (cacheFolder (fst w)) (Sum256Hex L k @ ''.store.json'')))
               = Some err \<and> IsNotExist err)
      \<longrightarrow> snd (Delete L k w) = None \<and> snd (fst (Delete L k w)) = snd w)
   \<and> (snd (Delete L k w) = None \<longrightarrow>
        files (snd (fst (Delete L k w))) (Join L (cacheFolder (fst w)) (Sum256Hex L k @ ''.store.json'')) = None
        \<or> cacheFolder (fst w) = [])
   \<and> (snd (Delete L k w) = None \<longrightarrow> snd (Delete L k (fst (Delete L k w))) = None)
   \<and> fst (Delete L k (fst (Delete L k w))) = fst (Delete L k w)"
proof -
  obtain d fs where w: "w = (d, fs)" by (cases w)
  let ?p = "Join L (cacheFolder d) (Sum256Hex L k @ ''.store.json'')"
  show ?thesis
  proof (cases "cacheFolder d = []")
    case True
    then show ?thesis
      by (simp add: w Delete_def deleteInCache_def Let_def store_update_absent)
  next
    case False
    show ?thesis
    proof (cases "denied fs ?p")
      case True
      with False show ?thesis
        by (simp add: w Delete_def deleteInCache_def getFileName_def Remove_def IsNotExist_def
              Let_def store_update_absent)
    next
      case nd: False
      with False show ?thesis
        by (cases "files fs ?p")
           (simp_all add: w Delete_def deleteInCache_def getFileName_def Remove_def IsNotExist_def
              Let_def store_update_absent)
    qed
  qed
qed

theorem Delete_is_idempotent_witness:
  "\<not> denied (exFs [] [] []) (Join (exLib 0) ''c'' (Sum256Hex (exLib 0) ''k'' @ ''.store.json''))
   \<and> files (exFs [] [] []) (Join (exLib 0) ''c'' (Sum256Hex (exLib 0) ''k'' @ ''.store.json'')) = None
   \<and> data (exStore [] ''c'') ''k'' = None
   \<and> Delete (exLib 0) ''k'' (exStore [] ''c'', exFs [] [] []) = ((exStore [] ''c'', exFs [] [] []), None)
   \<and> snd (Delete (exLib 0) ''k''
        (exStore [(''k'', \<lparr>Key = ''k'', Value = ''1'', DeleteTimestamp = 9\<rparr>)] ''c'',
         exFs [(''c/k.store.json'', ''k'')] [] [])) = None
   \<and> snd (Delete (exLib 0) ''k'' (fst (Delete (exLib 0) ''k''
        (exStore [(''k'', \<lparr>Key = ''k'', Value = ''1'', DeleteTimestamp = 9\<rparr>)] ''c'',
         exFs [(''c/k.store.json'', ''k'')] [] [])))) = None
   \<and> denied (exFs [] [''c/k.store.json''] []) (Join (exLib 0) ''c'' (Sum256Hex (exLib 0) ''k'' @ ''.store.json''))
   \<and> snd (Delete (exLib 0) ''k'' (exStore [] ''c'', exFs [] [''c/k.store.json''] []))
       = Some ErrPermission"
proof -
  let ?w = "(exStore [] ''c'', exFs [] [] [])"
  let ?u = "(exStore [(''k'', \<lparr>Key = ''k'', Value = ''1'', DeleteTimestamp = 9\<rparr>)] ''c'',
         exFs [(''c/k.store.json'', ''k'')] [] [])"
  let ?r = "(exStore [] ''c'', exFs [] [''c/k.store.json''] [])"
  have h0: "\<not> denied (snd ?w) (Join (exLib 0) (cacheFolder (fst ?w)) (Sum256Hex (exLib 0) ''k'' @ ''.store.json''))"
    by (simp add: exFs_def)
  have h1: "files (snd ?w) (Join (exLib 0) (cacheFolder (fst ?w)) (Sum256Hex (exLib 0) ''k'' @ ''.store.json'')) = None"
    by (simp add: exFs_def)
  have h2: "data (fst ?w) ''k'' = None"
    by (simp add: exStore_def)
  have h3: "\<not> denied (snd ?u) (Join (exLib 0) (cacheFolder (fst ?u)) (Sum256Hex (exLib 0) ''k'' @ ''.store.json''))"
    and h4: "cacheFolder (fst ?u) \<noteq> []"
    by (simp_all add: exFs_def exStore_def)
  have h5: "denied (snd ?r) (Join (exLib 0) (cacheFolder (fst ?r)) (Sum256Hex (exLib 0) ''k'' @ ''.store.json''))"
    and h6: "cacheFolder (fst ?r) \<noteq> []"
    by (simp_all add: exFs_def exStore_def exLib_def)
  from Delete_is_idempotent [of "exLib 0" "''k''" ?w] h0 h1 h2
  have a: "Delete (exLib 0) ''k'' ?w = (?w, None)"
    by (simp add: prod_eq_iff)
  have b: "snd (Delete (exLib 0) ''k'' ?u) = None"
    by (simp add: Delete_def deleteInCache_def getFileName_def Remove_def exLib_def exStore_def
          exFs_def)
  from Delete_is_idempotent [of "exLib 0" "''k''" ?u] b
  have c: "snd (Delete (exLib 0) ''k'' (fst (Delete (exLib 0) ''k'' ?u))) = None"
    by blast
  from Delete_is_idempotent [of "exLib 0" "''k''" ?r] h5 h6
  have e: "snd (Delete (exLib 0) ''k'' ?r) = Some ErrPermission"
    by blast
  from a b c e h0 h1 h2 h5 show ?thesis by (simp add: exStore_def)
qed

subsection \<open>C9: a store without a cache folder\<close>

lemma saveInCache_no_folder:
  "cacheFolder d = [] \<Longrightarrow> saveInCache L node (d, fs) = (fs, None)"
  by (simp add: saveInCache_def)

lemma deleteInCache_no_folder:
  "cacheFolder d = [] \<Longrightarrow> deleteInCache L key (d, fs) = (fs, None)"
  by (simp add: deleteInCache_def)

lemma init_no_folder:
  "cacheFolder d = [] \<Longrightarrow> init L clk (d, fs) = ((d, fs), None)"
  by (simp add: init_def)

lemma newNode_toMem:
  "ttl \<noteq> 0 \<Longrightarrow> toMem (newNode now key val ttl) = newNode_mem now key val ttl"
  by (simp add: toMem_def newNode_def newNode_mem_def Let_def)

lemma nodeIsExpired_toMem:
  "nodeIsExpired_mem t (toMem node) = nodeIsExpired t node"
  by (simp add: nodeIsExpired_mem_def nodeIsExpired_def toMem_def)

lemma LengthLoop_sim:
  "sameEntries d m \<Longrightarrow> LengthLoop_mem m clk keys c = LengthLoop d clk keys c"
proof (induction keys arbitrary: c)
  case Nil
  show ?case by simp
next
  case (Cons key keys)
  from Cons.prems have "data_mem m key = map_option toMem (data d key)"
    by (simp add: sameEntries_def)
  with Cons show ?case
    by (cases "data d key") (simp_all add: nodeIsExpired_toMem)
qed

lemma cleanPass_sim:
  "sameEntries d m \<Longrightarrow> cacheFolder d = [] \<Longrightarrow>
   \<exists>d'. cleanPass L clk keys (d, fs) = Completed (d', fs)
        \<and> cacheFolder d' = [] \<and> sameEntries d' (cleanPass_mem clk keys m)"
proof (induction keys arbitrary: d m)
  case Nil
  then show ?case by simp
next
  case (Cons key keys)
  from Cons.prems have eq: "data_mem m key = map_option toMem (data d key)"
    by (simp add: sameEntries_def)
  show ?case
  proof (cases "data d key")
    case None
    with eq Cons show ?thesis by simp
  next
    case (Some node)
    show ?thesis
    proof (cases "nodeIsExpired (clk key) node")
      case False
      with Some eq Cons show ?thesis by (simp add: nodeIsExpired_toMem)
    next
      case True
      let ?d = "d\<lparr>data := (data d)(key := None)\<rparr>"
      let ?m = "m\<lparr>data_mem := (data_mem m)(key := None)\<rparr>"
      have s: "sameEntries ?d ?m"
        using Cons.prems(1) by (simp add: sameEntries_def)
      have c: "cacheFolder ?d = []"
        using Cons.prems(2) by simp
      from Cons.IH [OF s c] True Some eq c show ?thesis
        by (simp add: nodeIsExpired_toMem deleteInCache_no_folder)
    qed
  qed
qed

lemma exec_sim:
  assumes "sameEntries d m" and "cacheFolder d = []" and "\<not> isSetZero c"
  shows "\<exists>d' r. exec L c (d, fs) = ((d', fs), r) \<and> \<not> isPanic r
           \<and> observed r = snd (exec_mem c m)
           \<and> cacheFolder d' = [] \<and> sameEntries d' (fst (exec_mem c m))"
proof (cases c)
  case (CallSet now key val ttl)
  with assms show ?thesis
    by (simp add: Set_def Set_mem_def Let_def saveInCache_no_folder sameEntries_def newNode_toMem)
next
  case (CallGet now key)
  from assms(1) have "data_mem m key = map_option toMem (data d key)"
    by (simp add: sameEntries_def)
  with CallGet assms show ?thesis
    by (cases "data d key")
       (simp_all add: Get_def Get_mem_def nodeIsExpired_toMem, simp add: toMem_def)
next
  case (CallDelete key)
  with assms show ?thesis
    by (simp add: Delete_def Delete_mem_def Let_def deleteInCache_no_folder sameEntries_def)
next
  case (CallLength clk keys)
  with assms show ?thesis
    by (simp add: Length_def Length_mem_def LengthLoop_sim)
next
  case (CallSweep clk keys)
  from cleanPass_sim [OF assms(1,2), of L clk keys fs] CallSweep show ?thesis
    by auto
qed

lemma run_sim:
  assumes "sameEntries d m" and "cacheFolder d = []" and "\<forall>c\<in>set calls. \<not> isSetZero c"
  shows "map observed (fst (run L calls (d, fs))) = fst (run_mem calls m)
       \<and> snd (snd (run L calls (d, fs))) = fs"
  using assms
proof (induction calls arbitrary: d m)
  case Nil
  show ?case by simp
next
  case (Cons c calls)
  from Cons.prems have nz: "\<not> isSetZero c" by simp
  from exec_sim [OF Cons.prems(1,2) nz, of L fs] obtain d' r where
    e: "exec L c (d, fs) = ((d', fs), r)" and np: "\<not> isPanic r"
    and o: "observed r = snd (exec_mem c m)"
    and cf: "cacheFolder d' = []" and s: "sameEntries d' (fst (exec_mem c m))"
    by blast
  from Cons.prems have rest: "\<forall>c\<in>set calls. \<not> isSetZero c" by simp
  from Cons.IH [OF s cf rest] e np o show ?case
    by (simp add: split_beta)
qed

text \<open>
  Claim C9 says that a store without a storage location gives, for every sequence of
  calls, the results of the in-memory revision. It does not for a TTL of zero, which only
  the revision with a cache folder treats specially. Counterexample: \<^verbatim>\<open>Set("k", "1", 0)\<close>
  and then \<^verbatim>\<open>Get("k")\<close> in the same millisecond. The in-memory store returns
  \<open>("1", true)\<close>, the store with an empty cache folder returns \<open>(nil, false)\<close>.
\<close>

theorem no_folder_ttl_zero_counterexample:
  "map observed (fst (run (exLib 0)
       [CallSet 1700000000000000000 ''k'' ''1'' 0, CallGet 1700000000000000000 ''k'']
       (\<lparr>data = Map.empty, cacheFolder = []\<rparr>, exFs [] [] [])))
     = [NoResult, Found None False]
   \<and> fst (run_mem [CallSet 1700000000000000000 ''k'' ''1'' 0, CallGet 1700000000000000000 ''k'']
       NewKeyValueStore_mem)
     = [NoResult, Found (Some ''1'') True]"
  by (simp add: Set_def Get_def Set_mem_def Get_mem_def saveInCache_def
        newNode_def newNode_mem_def Add_def MaxInt_def
        nodeIsExpired_def nodeIsExpired_mem_def UnixMilli_def word_sless_alt
        NewKeyValueStore_mem_def Millisecond_def)

text \<open>
  Claim C9 as amended. With an empty cache folder the construction of the store reads
  and writes nothing, \<^verbatim>\<open>saveInCache\<close> and \<^verbatim>\<open>deleteInCache\<close> return \<^verbatim>\<open>nil\<close> and leave the
  files alone, and for every sequence of calls of \<^verbatim>\<open>Set\<close>, \<^verbatim>\<open>Get\<close>, \<^verbatim>\<open>Delete\<close>,
  \<^verbatim>\<open>Length\<close> and sweeper passes in which no \<^verbatim>\<open>Set\<close> has the TTL zero, the results are
  those of the in-memory revision (a \<^verbatim>\<open>nil\<close> error standing for its missing result),
  no call panics, and the files are untouched.
\<close>

theorem no_folder_refines_in_memory_store:
  assumes "\<forall>c\<in>set calls. \<not> isSetZero c"
  shows "NewKeyValueStore L [] clk fs = Completed (\<lparr>data = Map.empty, cacheFolder = []\<rparr>, fs)
       \<and> saveInCache L node (\<lparr>data = entries, cacheFolder = []\<rparr>, fs) = (fs, None)
       \<and> deleteInCache L key (\<lparr>data = entries, cacheFolder = []\<rparr>, fs) = (fs, None)
       \<and> map observed (fst (run L calls (\<lparr>data = Map.empty, cacheFolder = []\<rparr>, fs)))
           = fst (run_mem calls NewKeyValueStore_mem)
       \<and> snd (snd (run L calls (\<lparr>data = Map.empty, cacheFolder = []\<rparr>, fs))) = fs"
proof -
  have s: "sameEntries \<lparr>data = Map.empty, cacheFolder = []\<rparr> (NewKeyValueStore_mem :: 'v KeyValueStore_mem)"
    by (simp add: sameEntries_def NewKeyValueStore_mem_def)
  from run_sim [OF s _ assms, of L fs] show ?thesis
    by (simp add: NewKeyValueStore_def init_no_folder saveInCache_no_folder deleteInCache_no_folder)
qed

theorem no_folder_refines_in_memory_store_witness:
  "map observed (fst (run (exLib 0)
       [CallSet 1700000000000000000 ''k'' ''1'' 100, CallGet 1700000000000000000 ''k'',
        CallLength (\<lambda>_. 1700000000000000000) [''k''], CallDelete ''k'',
        CallGet 1700000000000000000 ''k'']
       (\<lparr>data = Map.empty, cacheFolder = []\<rparr>, exFs [] [] [])))
     = fst (run_mem
       [CallSet 1700000000000000000 ''k'' ''1'' 100, CallGet 1700000000000000000 ''k'',
        CallLength (\<lambda>_. 1700000000000000000) [''k''], CallDelete ''k'',
        CallGet 1700000000000000000 ''k'']
       NewKeyValueStore_mem)
   \<and> fst (run_mem
       [CallSet 1700000000000000000 ''k'' ''1'' 100, CallGet 1700000000000000000 ''k'',
        CallLength (\<lambda>_. 1700000000000000000) [''k''], CallDelete ''k'',
        CallGet 1700000000000000000 ''k'']
       NewKeyValueStore_mem)
     = [NoResult, Found (Some ''1'') True, Count 1, NoResult, Found None False]"
proof -
  let ?calls = "[CallSet 1700000000000000000 ''k'' ''1'' 100, CallGet 1700000000000000000 ''k'',
        CallLength (\<lambda>_. 1700000000000000000) [''k''], CallDelete ''k'',
        CallGet 1700000000000000000 ''k''] :: string call list"
  have h: "\<forall>c\<in>set ?calls. \<not> isSetZero c" by simp
  have r: "fst (run_mem ?calls NewKeyValueStore_mem)
     = [NoResult, Found (Some ''1'') True, Count 1, NoResult, Found None False]"
    by (simp add: Set_mem_def Get_mem_def Delete_mem_def Length_mem_def
        newNode_mem_def Add_def nodeIsExpired_mem_def UnixMilli_def word_sless_alt
        NewKeyValueStore_mem_def Millisecond_def)
  from no_folder_refines_in_memory_store [OF h, of "exLib 0" "\<lambda>_. (0, 0)" "exFs [] [] []"] r
  show ?thesis by simp
qed

subsection \<open>C10: every entry is stored under its own key\<close>

lemma Key_newNode: "Key (newNode now k v ttl) = k"
  by (simp add: newNode_def Let_def)

lemma keysMatch_Set:
  "keysMatch (fst w) \<Longrightarrow> keysMatch (fst (fst (Set L now k v ttl w)))"
  by (cases w) (simp add: Set_def Let_def keysMatch_def Key_newNode split: prod.splits)

lemma keysMatch_remove:
  "keysMatch d \<Longrightarrow> keysMatch (d\<lparr>data := (data d)(k := None)\<rparr>)"
  by (simp add: keysMatch_def)

lemma keysMatch_Delete:
  "keysMatch (fst w) \<Longrightarrow> keysMatch (fst (fst (Delete L k w)))"
  by (cases w) (simp add: Delete_def Let_def keysMatch_remove split: prod.splits)

lemma keysMatch_cleanPass:
  "keysMatch (fst w) \<Longrightarrow> keysMatch (fst (worldOf (cleanPass L clk keys w)))"
proof (induction keys arbitrary: w)
  case Nil
  then show ?case by simp
next
  case (Cons key keys)
  obtain d fs where w: "w = (d, fs)" by (cases w)
  show ?case
  proof (cases "data d key")
    case None
    with Cons w show ?thesis by simp
  next
    case (Some node)
    show ?thesis
    proof (cases "nodeIsExpired (clk key) node")
      case False
      with Some Cons w show ?thesis by simp
    next
      case True
      let ?d = "d\<lparr>data := (data d)(key := None)\<rparr>"
      obtain fs' r where del: "deleteInCache L key (?d, fs) = (fs', r)"
        by (cases "deleteInCache L key (?d, fs)")
      have k: "keysMatch (fst (?d, fs'))"
        using Cons.prems w by (simp add: keysMatch_remove)
      from Cons.IH [OF k] k True Some del w show ?thesis
        by (cases r) simp_all
    qed
  qed
qed

lemma keysMatch_initLoop:
  "keysMatch (fst w) \<Longrightarrow> keysMatch (fst (fst (initLoop L clk entries w)))"
proof (induction entries arbitrary: w)
  case Nil
  then show ?case by simp
next
  case (Cons f entries)
  obtain d fs where w: "w = (d, fs)" by (cases w)
  show ?case
  proof (cases "HasSuffix f ''.store.json''")
    case False
    with Cons w show ?thesis by simp
  next
    case True
    show ?thesis
    proof (cases "ReadFile fs (Join L (cacheFolder d) f)")
      case (Inl err)
      with True Cons.prems w show ?thesis by simp
    next
      case (Inr fileData)
      show ?thesis
      proof (cases "Unmarshal L fileData")
        case (Inl err)
        with True Inr Cons.prems w show ?thesis by simp
      next
        case (Inr node)
        with True \<open>ReadFile fs (Join L (cacheFolder d) f) = Inr fileData\<close> w
          Cons.IH [OF keysMatch_Set [OF Cons.prems]]
        show ?thesis by (simp add: Let_def)
      qed
    qed
  qed
qed

lemma keysMatch_New:
  "keysMatch (fst (worldOf (NewKeyValueStore L folder clk fs)))"
proof -
  let ?w = "(\<lparr>data = Map.empty, cacheFolder = folder\<rparr>, fs)"
  have e: "keysMatch (fst ?w)" by (simp add: keysMatch_def)
  have "keysMatch (fst (fst (init L clk ?w)))"
    using keysMatch_initLoop [OF e, of L clk] e
    by (auto simp: init_def split: option.splits sum.splits)
  then show ?thesis
    by (cases "init L clk ?w") (auto simp: NewKeyValueStore_def Let_def split: option.splits)
qed

lemma keysMatch_exec:
  "keysMatch (fst w) \<Longrightarrow> keysMatch (fst (fst (exec L c w)))"
proof (cases c)
  case (CallSet now key val ttl)
  assume "keysMatch (fst w)"
  from keysMatch_Set [OF this] CallSet show ?thesis
    by (simp add: split_beta)
next
  case (CallGet now key)
  assume "keysMatch (fst w)"
  with CallGet show ?thesis
    by (cases w) (simp add: Get_def split: option.splits)
next
  case (CallDelete key)
  assume "keysMatch (fst w)"
  from keysMatch_Delete [OF this] CallDelete show ?thesis
    by (simp add: split_beta)
next
  case (CallLength clk keys)
  assume "keysMatch (fst w)"
  with CallLength show ?thesis
    by (cases w) (simp add: Length_def)
next
  case (CallSweep clk keys)
  assume "keysMatch (fst w)"
  from keysMatch_cleanPass [OF this, of L clk keys] CallSweep show ?thesis
    by (cases "cleanPass L clk keys w") simp_all
qed

lemma keysMatch_run:
  "keysMatch (fst w) \<Longrightarrow> keysMatch (fst (snd (run L calls w)))"
proof (induction calls arbitrary: w)
  case Nil
  then show ?case by simp
next
  case (Cons c calls)
  from Cons.IH [OF keysMatch_exec [OF Cons.prems, of L c]] keysMatch_exec [OF Cons.prems, of L c]
  show ?case
    by (simp add: split_beta)
qed

lemma stored_initLoop:
  "\<exists>n. data (fst w) k = Some n \<and> Key n = k
   \<Longrightarrow> \<exists>n. data (fst (fst (initLoop L clk entries w))) k = Some n \<and> Key n = k"
proof (induction entries arbitrary: w)
  case Nil
  then show ?case by simp
next
  case (Cons f entries)
  obtain d fs where w: "w = (d, fs)" by (cases w)
  show ?case
  proof (cases "HasSuffix f ''.store.json''")
    case False
    with Cons w show ?thesis by simp
  next
    case True
    show ?thesis
    proof (cases "ReadFile fs (Join L (cacheFolder d) f)")
      case (Inl err)
      with True Cons.prems w show ?thesis by simp
    next
      case (Inr fileData)
      show ?thesis
      proof (cases "Unmarshal L fileData")
        case (Inl err)
        with True Inr Cons.prems w show ?thesis by simp
      next
        case (Inr node)
        let ?ttl = "if DeleteTimestamp node - UnixMilli (fst (clk f)) <s 0 then 1
                    else DeleteTimestamp node - UnixMilli (fst (clk f))"
        let ?w = "fst (Set L (snd (clk f)) (Key node) (Value node) ?ttl w)"
        have "\<exists>n. data (fst ?w) k = Some n \<and> Key n = k"
          using Cons.prems w
          by (auto simp: Set_def Let_def Key_newNode split: prod.splits)
        from Cons.IH [OF this] True \<open>ReadFile fs (Join L (cacheFolder d) f) = Inr fileData\<close> Inr w
        show ?thesis by (simp add: Let_def)
      qed
    qed
  qed
qed

lemma initLoop_replays:
  assumes "HasSuffix f ''.store.json''"
    and "ReadFile (snd w) (Join L (cacheFolder (fst w)) f) = Inr fileData"
    and "Unmarshal L fileData = Inr node"
  shows "initLoop L clk (f # entries) w
           = initLoop L clk entries
               (fst (Set L (snd (clk f)) (Key node) (Value node)
                      (if DeleteTimestamp node - UnixMilli (fst (clk f)) <s 0 then 1
                       else DeleteTimestamp node - UnixMilli (fst (clk f))) w))"
  using assms by (cases w) (simp add: Let_def)

lemma Value_newNode: "Value (newNode now k v ttl) = v"
  by (simp add: newNode_def Let_def)

lemma keysMatch_mem_cleanPass:
  "keysMatch_mem d \<Longrightarrow> keysMatch_mem (cleanPass_mem clk keys d)"
proof (induction keys arbitrary: d)
  case Nil
  then show ?case by simp
next
  case (Cons key keys)
  have "keysMatch_mem (d\<lparr>data_mem := (data_mem d)(key := None)\<rparr>)"
    using Cons.prems by (simp add: keysMatch_mem_def)
  with Cons show ?case
    by (simp split: option.splits)
qed

lemma keysMatch_mem_exec:
  "keysMatch_mem d \<Longrightarrow> keysMatch_mem (fst (exec_mem c d))"
proof (cases c)
  case (CallSet now key val ttl)
  assume "keysMatch_mem d"
  with CallSet show ?thesis
    by (simp add: keysMatch_mem_def Set_mem_def newNode_mem_def Let_def)
next
  case (CallGet now key)
  assume "keysMatch_mem d"
  with CallGet show ?thesis
    by (simp add: Get_mem_def split: option.splits)
next
  case (CallDelete key)
  assume "keysMatch_mem d"
  with CallDelete show ?thesis
    by (simp add: keysMatch_mem_def Delete_mem_def)
next
  case (CallLength clk keys)
  assume "keysMatch_mem d"
  with CallLength show ?thesis
    by (simp add: Length_mem_def)
next
  case (CallSweep clk keys)
  assume "keysMatch_mem d"
  from keysMatch_mem_cleanPass [OF this, of clk keys] CallSweep show ?thesis
    by simp
qed

lemma keysMatch_mem_run:
  "keysMatch_mem d \<Longrightarrow> keysMatch_mem (snd (run_mem calls d))"
proof (induction calls arbitrary: d)
  case Nil
  then show ?case by simp
next
  case (Cons c calls)
  from Cons.IH [OF keysMatch_mem_exec [OF Cons.prems, of c]]
  show ?case by (simp add: split_beta)
qed

text \<open>
  Claim C10: in the map every entry is stored under the key that its own key field
  holds.
  \<^item> The map of a new store has the property, whether the startup replay completes or
    fails; \<^verbatim>\<open>Set\<close>, \<^verbatim>\<open>Get\<close>, \<^verbatim>\<open>Delete\<close>, \<^verbatim>\<open>Length\<close>, a pass of the sweeper (completed or
    panicked), the startup replay and every run of calls keep it.
  \<^item> \<^verbatim>\<open>Set\<close> stores at \<open>k\<close> the node that \<^verbatim>\<open>newNode\<close> builds from \<open>k\<close>, whose key field is
    \<open>k\<close>.
  \<^item> The startup replay reinserts each recovered node under its persisted key field:
    for a directory entry \<open>f\<close> with the store's suffix whose file is read and decoded to
    \<open>node\<close>, the replay continues from the world that \<^verbatim>\<open>Set\<close> leaves for the key field,
    the value and the remaining time of \<open>node\<close>; right after that entry the map holds
    under the key field of \<open>node\<close> an entry with that key field and the value of
    \<open>node\<close>; at the end of the replay (completed or failed at a later entry) the map
    still holds an entry with that key field under that key. The same holds for the
    store that \<^verbatim>\<open>NewKeyValueStore\<close> builds from a folder whose listing starts with \<open>f\<close>.
  \<^item> The in-memory revision: the new store has the property, every call and every run
    of calls keep it, and \<^verbatim>\<open>Set\<close> stores at \<open>k\<close> a node whose key field is \<open>k\<close>.
\<close>

theorem every_entry_is_stored_under_its_key:
  "keysMatch (fst (worldOf (NewKeyValueStore (L :: 'v lib) folder clk fs)))
   \<and> (keysMatch (fst w) \<longrightarrow>
         keysMatch (fst (fst (Set L now k v ttl w)))
       \<and> keysMatch (fst (fst (Get t k w)))
       \<and> keysMatch (fst (fst (Delete L k w)))
       \<and> keysMatch (fst (fst (Length clk1 keys w)))
       \<and> keysMatch (fst (worldOf (cleanPass L clk1 keys w)))
       \<and> keysMatch (fst (fst (initLoop L clk entries w)))
       \<and> keysMatch (fst (snd (run L calls w))))
   \<and> data (fst (fst (Set L now k v ttl w))) k = Some (newNode now k v ttl)
   \<and> Key (newNode now k v ttl) = k
   \<and> keysMatch (fst (snd (run L calls (worldOf (NewKeyValueStore L folder clk fs)))))
   \<and> (HasSuffix f ''.store.json''
        \<and> ReadFile (snd u) (Join L (cacheFolder (fst u)) f) = Inr fileData
        \<and> Unmarshal L fileData = Inr node
      \<longrightarrow> initLoop L clk (f # entries) u
            = initLoop L clk entries
                (fst (Set L (snd (clk f)) (Key node) (Value node)
                       (if DeleteTimestamp node - UnixMilli (fst (clk f)) <s 0 then 1
                        else DeleteTimestamp node - UnixMilli (fst (clk f))) u))
          \<and> (\<exists>n. data (fst (fst (initLoop L clk [f] u))) (Key node) = Some n
                 \<and> Key n = Key node \<and> Value n = Value node)
          \<and> (\<exists>n. data (fst (fst (initLoop L clk (f # entries) u))) (Key node) = Some n
                 \<and> Key n = Key node))
   \<and> (folder \<noteq> [] \<and> \<not> denied fs folder \<and> listing fs folder = Inr (f # entries)
        \<and> HasSuffix f ''.store.json''
        \<and> ReadFile fs (Join L folder f) = Inr fileData
        \<and> Unmarshal L fileData = Inr node
      \<longrightarrow> (\<exists>n. data (fst (worldOf (NewKeyValueStore L folder clk fs))) (Key node) = Some n
                 \<and> Key n = Key node))
   \<and> keysMatch_mem (NewKeyValueStore_mem :: 'v KeyValueStore_mem)
   \<and> (keysMatch_mem (m :: 'v KeyValueStore_mem) \<longrightarrow>
         keysMatch_mem (Set_mem now k v ttl m)
       \<and> keysMatch_mem (fst (Get_mem t k m))
       \<and> keysMatch_mem (Delete_mem k m)
       \<and> keysMatch_mem (fst (Length_mem clk1 keys m))
       \<and> keysMatch_mem (cleanPass_mem clk1 keys m)
       \<and> keysMatch_mem (snd (run_mem calls m)))
   \<and> data_mem (Set_mem now k v ttl m) k = Some (newNode_mem now k v ttl)
   \<and> key_mem (newNode_mem now k v ttl) = k
   \<and> keysMatch_mem (snd (run_mem calls (NewKeyValueStore_mem :: 'v KeyValueStore_mem)))"
proof -
  have g: "keysMatch (fst w) \<Longrightarrow> keysMatch (fst (fst (Get t k w)))"
    using keysMatch_exec [of w L "CallGet t k"] by (simp add: split_beta)
  have l: "keysMatch (fst w) \<Longrightarrow> keysMatch (fst (fst (Length clk1 keys w)))"
    using keysMatch_exec [of w L "CallLength clk1 keys"] by (simp add: split_beta)
  have part1: "keysMatch (fst (worldOf (NewKeyValueStore L folder clk fs)))
   \<and> (keysMatch (fst w) \<longrightarrow>
         keysMatch (fst (fst (Set L now k v ttl w)))
       \<and> keysMatch (fst (fst (Get t k w)))
       \<and> keysMatch (fst (fst (Delete L k w)))
       \<and> keysMatch (fst (fst (Length clk1 keys w)))
       \<and> keysMatch (fst (worldOf (cleanPass L clk1 keys w)))
       \<and> keysMatch (fst (fst (initLoop L clk entries w)))
       \<and> keysMatch (fst (snd (run L calls w))))
   \<and> data (fst (fst (Set L now k v ttl w))) k = Some (newNode now k v ttl)
   \<and> Key (newNode now k v ttl) = k
   \<and> keysMatch (fst (snd (run L calls (worldOf (NewKeyValueStore L folder clk fs)))))"
    using g l keysMatch_New [of L folder clk fs] keysMatch_run [OF keysMatch_New, of L calls L folder clk fs]
    by (simp add: keysMatch_Set keysMatch_Delete keysMatch_cleanPass keysMatch_initLoop
          keysMatch_run data_after_Set Key_newNode)
  have replay: "initLoop L clk (f # es) x
            = initLoop L clk es
                (fst (Set L (snd (clk f)) (Key node) (Value node)
                       (if DeleteTimestamp node - UnixMilli (fst (clk f)) <s 0 then 1
                        else DeleteTimestamp node - UnixMilli (fst (clk f))) x))
          \<and> (\<exists>n. data (fst (fst (initLoop L clk [f] x))) (Key node) = Some n
                 \<and> Key n = Key node \<and> Value n = Value node)
          \<and> (\<exists>n. data (fst (fst (initLoop L clk (f # es) x))) (Key node) = Some n
                 \<and> Key n = Key node)"
    if h: "HasSuffix f ''.store.json''"
        "ReadFile (snd x) (Join L (cacheFolder (fst x)) f) = Inr fileData"
        "Unmarshal L fileData = Inr node"
    for x es
  proof -
    let ?ttl = "if DeleteTimestamp node - UnixMilli (fst (clk f)) <s 0 then 1
                else DeleteTimestamp node - UnixMilli (fst (clk f))"
    let ?x = "fst (Set L (snd (clk f)) (Key node) (Value node) ?ttl x)"
    have st: "data (fst ?x) (Key node) = Some (newNode (snd (clk f)) (Key node) (Value node) ?ttl)"
      by (rule data_after_Set)
    have a: "initLoop L clk (f # es) x = initLoop L clk es ?x" for es
      by (rule initLoop_replays [OF h])
    have b: "\<exists>n. data (fst ?x) (Key node) = Some n \<and> Key n = Key node"
      using st by (simp add: Key_newNode)
    have c: "\<exists>n. data (fst (fst (initLoop L clk es ?x))) (Key node) = Some n \<and> Key n = Key node"
      by (rule stored_initLoop [OF b])
    show ?thesis
      using a [of es] a [of "[]"] st c by (simp add: Key_newNode Value_newNode)
  qed
  have part2: "HasSuffix f ''.store.json''
        \<and> ReadFile (snd u) (Join L (cacheFolder (fst u)) f) = Inr fileData
        \<and> Unmarshal L fileData = Inr node
      \<longrightarrow> initLoop L clk (f # entries) u
            = initLoop L clk entries
                (fst (Set L (snd (clk f)) (Key node) (Value node)
                       (if DeleteTimestamp node - UnixMilli (fst (clk f)) <s 0 then 1
                        else DeleteTimestamp node - UnixMilli (fst (clk f))) u))
          \<and> (\<exists>n. data (fst (fst (initLoop L clk [f] u))) (Key node) = Some n
                 \<and> Key n = Key node \<and> Value n = Value node)
          \<and> (\<exists>n. data (fst (fst (initLoop L clk (f # entries) u))) (Key node) = Some n
                 \<and> Key n = Key node)"
    using replay [of u entries] by blast
  have part3: "folder \<noteq> [] \<and> \<not> denied fs folder \<and> listing fs folder = Inr (f # entries)
        \<and> HasSuffix f ''.store.json''
        \<and> ReadFile fs (Join L folder f) = Inr fileData
        \<and> Unmarshal L fileData = Inr node
      \<longrightarrow> (\<exists>n. data (fst (worldOf (NewKeyValueStore L folder clk fs))) (Key node) = Some n
                 \<and> Key n = Key node)"
  proof
    let ?x = "(\<lparr>data = Map.empty, cacheFolder = folder\<rparr>, fs) :: 'v world"
    assume h: "folder \<noteq> [] \<and> \<not> denied fs folder \<and> listing fs folder = Inr (f # entries)
        \<and> HasSuffix f ''.store.json''
        \<and> ReadFile fs (Join L folder f) = Inr fileData
        \<and> Unmarshal L fileData = Inr node"
    then have i: "init L clk ?x = initLoop L clk (f # entries) ?x"
      by (simp add: init_def MkdirAll_def ReadDir_def)
    from h have hs: "HasSuffix f ''.store.json''"
      and rf: "ReadFile (snd ?x) (Join L (cacheFolder (fst ?x)) f) = Inr fileData"
      and um: "Unmarshal L fileData = Inr node"
      by simp_all
    have "\<exists>n. data (fst (fst (initLoop L clk (f # entries) ?x))) (Key node) = Some n
                 \<and> Key n = Key node"
      using replay [OF hs rf um, of entries] by (rule conjunct2 [THEN conjunct2])
    then have "\<exists>n. data (fst (fst (init L clk ?x))) (Key node) = Some n \<and> Key n = Key node"
      by (simp only: i)
    then show "\<exists>n. data (fst (worldOf (NewKeyValueStore L folder clk fs))) (Key node) = Some n
                 \<and> Key n = Key node"
      by (cases "init L clk ?x") (auto simp: NewKeyValueStore_def Let_def split: option.splits)
  qed
  have e: "keysMatch_mem (NewKeyValueStore_mem :: 'v KeyValueStore_mem)"
    by (simp add: keysMatch_mem_def NewKeyValueStore_mem_def)
  have part4: "keysMatch_mem (NewKeyValueStore_mem :: 'v KeyValueStore_mem)
   \<and> (keysMatch_mem m \<longrightarrow>
         keysMatch_mem (Set_mem now k v ttl m)
       \<and> keysMatch_mem (fst (Get_mem t k m))
       \<and> keysMatch_mem (Delete_mem k m)
       \<and> keysMatch_mem (fst (Length_mem clk1 keys m))
       \<and> keysMatch_mem (cleanPass_mem clk1 keys m)
       \<and> keysMatch_mem (snd (run_mem calls m)))
   \<and> data_mem (Set_mem now k v ttl m) k = Some (newNode_mem now k v ttl)
   \<and> key_mem (newNode_mem now k v ttl) = k
   \<and> keysMatch_mem (snd (run_mem calls (NewKeyValueStore_mem :: 'v KeyValueStore_mem)))"
    using e keysMatch_mem_exec [of m "CallSet now k v ttl"] keysMatch_mem_exec [of m "CallGet t k"]
      keysMatch_mem_exec [of m "CallDelete k"] keysMatch_mem_exec [of m "CallLength clk1 keys"]
      keysMatch_mem_run [OF e, of calls]
    by (simp add: keysMatch_mem_cleanPass keysMatch_mem_run split_beta Set_mem_def
          newNode_mem_def Let_def)
  note c1 = part1 [THEN conjunct1]
    and c2 = part1 [THEN conjunct2, THEN conjunct1]
    and c3 = part1 [THEN conjunct2, THEN conjunct2, THEN conjunct1]
    and c4 = part1 [THEN conjunct2, THEN conjunct2, THEN conjunct2, THEN conjunct1]
    and c5 = part1 [THEN conjunct2, THEN conjunct2, THEN conjunct2, THEN conjunct2]
    and c8 = part4 [THEN conjunct1]
    and c9 = part4 [THEN conjunct2, THEN conjunct1]
    and c10 = part4 [THEN conjunct2, THEN conjunct2, THEN conjunct1]
    and c11 = part4 [THEN conjunct2, THEN conjunct2, THEN conjunct2, THEN conjunct1]
    and c12 = part4 [THEN conjunct2, THEN conjunct2, THEN conjunct2, THEN conjunct2]
  show ?thesis
    by (intro conjI c1 c2 c3 c4 c5 part2 part3 c8 c9 c10 c11 c12)
qed

theorem every_entry_is_stored_under_its_key_witness:
  "keysMatch (exStore [(''a'', \<lparr>Key = ''a'', Value = ''1'', DeleteTimestamp = 1\<rparr>)] ''c'')
   \<and> keysMatch (fst (fst (Set (exLib 0) 1700000000000000000 ''k'' ''1'' 100
        (exStore [(''a'', \<lparr>Key = ''a'', Value = ''1'', DeleteTimestamp = 1\<rparr>)] ''c'', exFs [] [] []))))
   \<and> data (fst (fst (Set (exLib 0) 1700000000000000000 ''k'' ''1'' 100
        (exStore [(''a'', \<lparr>Key = ''a'', Value = ''1'', DeleteTimestamp = 1\<rparr>)] ''c'', exFs [] [] [])))) ''k''
       = Some \<lparr>Key = ''k'', Value = ''1'', DeleteTimestamp = 1700000000100\<rparr>
   \<and> keysMatch (fst (fst (initLoop (exLib 5) (\<lambda>_. (0, 0)) [''k.store.json'']
        (exStore [(''a'', \<lparr>Key = ''a'', Value = ''1'', DeleteTimestamp = 1\<rparr>)] ''c'',
         exFs [(''c/k.store.json'', ''k'')] [] []))))
   \<and> HasSuffix ''k.store.json'' ''.store.json''
   \<and> ReadFile (exFs [(''c/k.store.json'', ''k'')] [] [''k.store.json''])
        (Join (exLib 5) ''c'' ''k.store.json'') = Inr ''k''
   \<and> Unmarshal (exLib 5) ''k'' = Inr \<lparr>Key = ''k'', Value = ''v'', DeleteTimestamp = 5\<rparr>
   \<and> (\<exists>n. data (fst (fst (initLoop (exLib 5) (\<lambda>_. (0, 0)) [''k.store.json'']
              (exStore [] ''c'', exFs [(''c/k.store.json'', ''k'')] [] [''k.store.json''])))) ''k''
            = Some n \<and> Key n = ''k'' \<and> Value n = ''v'')
   \<and> (\<exists>n. data (fst (worldOf (NewKeyValueStore (exLib 5) ''c'' (\<lambda>_. (0, 0))
              (exFs [(''c/k.store.json'', ''k'')] [] [''k.store.json''])))) ''k''
            = Some n \<and> Key n = ''k'')
   \<and> keysMatch_mem \<lparr>data_mem = [''a'' \<mapsto> \<lparr>key_mem = ''a'', value_mem = ''1'', deleteTimestamp = 1\<rparr>]\<rparr>
   \<and> keysMatch_mem (Set_mem 1700000000000000000 ''k'' ''1'' 100
        \<lparr>data_mem = [''a'' \<mapsto> \<lparr>key_mem = ''a'', value_mem = ''1'', deleteTimestamp = 1\<rparr>]\<rparr>)"
proof -
  let ?w = "(exStore [(''a'', \<lparr>Key = ''a'', Value = ''1'', DeleteTimestamp = 1\<rparr>)] ''c'', exFs [] [] [])"
  let ?u = "(exStore [(''a'', \<lparr>Key = ''a'', Value = ''1'', DeleteTimestamp = 1\<rparr>)] ''c'',
         exFs [(''c/k.store.json'', ''k'')] [] [])"
  let ?fs = "exFs [(''c/k.store.json'', ''k'')] [] [''k.store.json'']"
  let ?x = "(exStore [] ''c'', ?fs)"
  let ?node = "\<lparr>Key = ''k'', Value = ''v'', DeleteTimestamp = 5\<rparr> :: string node"
  let ?m = "\<lparr>data_mem = [''a'' \<mapsto> \<lparr>key_mem = ''a'', value_mem = ''1'', deleteTimestamp = 1\<rparr>]\<rparr>
              :: string KeyValueStore_mem"
  have h: "keysMatch (exStore [(''a'', \<lparr>Key = ''a'', Value = ''1'', DeleteTimestamp = 1\<rparr>)] ''c'')"
    by (simp add: keysMatch_def exStore_def)
  have n: "newNode 1700000000000000000 ''k'' ''1'' 100 = \<lparr>Key = ''k'', Value = ''1'', DeleteTimestamp = 1700000000100\<rparr>"
    by (simp add: newNode_def Add_def Millisecond_def UnixMilli_def)
  have r1: "HasSuffix ''k.store.json'' ''.store.json''"
    by (simp add: HasSuffix_def)
  have r2: "ReadFile (snd ?x) (Join (exLib 5) (cacheFolder (fst ?x)) ''k.store.json'') = Inr ''k''"
    by (simp add: ReadFile_def exFs_def exLib_def exStore_def)
  have r2': "ReadFile ?fs (Join (exLib 5) ''c'' ''k.store.json'') = Inr ''k''"
    using r2 by (simp add: exStore_def)
  have r3: "Unmarshal (exLib 5) ''k'' = Inr ?node"
    by (simp add: exLib_def)
  have r4: "''c'' \<noteq> [] \<and> \<not> denied ?fs ''c'' \<and> listing ?fs ''c'' = Inr (''k.store.json'' # [])"
    by (simp add: exFs_def)
  have hm: "keysMatch_mem ?m"
    by (simp add: keysMatch_mem_def)
  have hw: "keysMatch (fst ?w)" and hu: "keysMatch (fst ?u)"
    using h by simp_all
  note A = every_entry_is_stored_under_its_key [where L = "exLib 0" and w = ?w
        and now = 1700000000000000000 and k = "''k''" and v = "''1''" and ttl = 100
        and m = ?m]
  note B = every_entry_is_stored_under_its_key [where L = "exLib 5" and w = ?u and u = ?x
        and clk = "\<lambda>_. (0, 0)" and entries = "[''k.store.json'']"
        and f = "''k.store.json''" and fileData = "''k''" and node = ?node]
  note C = every_entry_is_stored_under_its_key [where L = "exLib 5" and fs = ?fs
        and folder = "''c''" and entries = "[]"
        and clk = "\<lambda>_. (0, 0)" and f = "''k.store.json''" and fileData = "''k''"
        and node = ?node]
  have 1: "keysMatch (fst (fst (Set (exLib 0) 1700000000000000000 ''k'' ''1'' 100 ?w)))"
    by (rule A [THEN conjunct2, THEN conjunct1, THEN mp, OF hw, THEN conjunct1])
  have 2: "data (fst (fst (Set (exLib 0) 1700000000000000000 ''k'' ''1'' 100 ?w))) ''k''
       = Some (newNode 1700000000000000000 ''k'' ''1'' 100)"
    by (rule A [THEN conjunct2, THEN conjunct2, THEN conjunct1])
  have 3: "keysMatch (fst (fst (initLoop (exLib 5) (\<lambda>_. (0, 0)) [''k.store.json''] ?u)))"
    by (rule B [THEN conjunct2, THEN conjunct1, THEN mp, OF hu, THEN conjunct2, THEN conjunct2,
          THEN conjunct2, THEN conjunct2, THEN conjunct2, THEN conjunct1])
  have p4: "\<exists>n. data (fst (fst (initLoop (exLib 5) (\<lambda>_. (0, 0)) [''k.store.json''] ?x))) (Key ?node)
            = Some n \<and> Key n = Key ?node \<and> Value n = Value ?node"
    by (rule B [THEN conjunct2, THEN conjunct2, THEN conjunct2, THEN conjunct2, THEN conjunct2,
          THEN conjunct1, THEN mp, OF conjI [OF r1 conjI [OF r2 r3]], THEN conjunct2,
          THEN conjunct1])
  then have 4: "\<exists>n. data (fst (fst (initLoop (exLib 5) (\<lambda>_. (0, 0)) [''k.store.json''] ?x))) ''k''
            = Some n \<and> Key n = ''k'' \<and> Value n = ''v''"
    by simp
  have r5: "''c'' \<noteq> [] \<and> \<not> denied ?fs ''c'' \<and> listing ?fs ''c'' = Inr (''k.store.json'' # [])
        \<and> HasSuffix ''k.store.json'' ''.store.json''
        \<and> ReadFile ?fs (Join (exLib 5) ''c'' ''k.store.json'') = Inr ''k''
        \<and> Unmarshal (exLib 5) ''k'' = Inr ?node"
    using r1 r2' r3 r4 by (intro conjI) simp_all
  have p5: "\<exists>n. data (fst (worldOf (NewKeyValueStore (exLib 5) ''c'' (\<lambda>_. (0, 0)) ?fs))) (Key ?node)
            = Some n \<and> Key n = Key ?node"
    by (rule C [THEN conjunct2, THEN conjunct2, THEN conjunct2, THEN conjunct2, THEN conjunct2,
          THEN conjunct2, THEN conjunct1, THEN mp, OF r5])
  then have 5: "\<exists>n. data (fst (worldOf (NewKeyValueStore (exLib 5) ''c'' (\<lambda>_. (0, 0)) ?fs))) ''k''
            = Some n \<and> Key n = ''k''"
    by simp
  have 6: "keysMatch_mem (Set_mem 1700000000000000000 ''k'' ''1'' 100 ?m)"
    by (rule A [THEN conjunct2, THEN conjunct2, THEN conjunct2, THEN conjunct2, THEN conjunct2,
          THEN conjunct2, THEN conjunct2, THEN conjunct2, THEN conjunct1, THEN mp, OF hm,
          THEN conjunct1])
  from h 1 2 3 4 5 6 hm r1 r2' r3 show ?thesis by (simp add: n)
qed

end
